theory Spec2Isabelle
  imports Main "HOL-Library.Word"
begin

section \<open>Olimpia IR bridge: a shallow embedding of the sketch\<close>

text \<open>
  The sketch \<^verbatim>\<open>Olimpia IR Bridge.ino\<close> is single-threaded: \<^verbatim>\<open>setup()\<close> runs once,
  then \<^verbatim>\<open>loop()\<close> runs forever. Every function of the sketch becomes a function from
  the program state to the program state. The state holds the sketch's global variables,
  the millisecond clock, the session state of the MQTT client and the trace of every call
  the sketch makes into the hardware and the libraries, in program order.

  What the sketch reads from outside (link status, socket liveness, broker answer, button
  pin, inbound messages, reset reason) is a record of oracles, indexed by a counter that
  advances on every read. Nothing is assumed about the oracles, so a theorem that holds
  for every oracle holds for every behaviour of the surroundings.

  Time passes in \<^verbatim>\<open>delay\<close> only, and between two rounds of \<^verbatim>\<open>loop()\<close>; every other
  statement is instantaneous. An Arduino \<^verbatim>\<open>String\<close> is the list of its characters, NUL
  bytes included. Values that only the platform knows (addresses,
  signal strength, the client's error code) appear in the serial log under their name in
  angle brackets.
\<close>

type_synonym u16 = "16 word"
type_synonym u32 = "32 word"

subsection \<open>Compile-time configuration (config.h, secrets.h)\<close>

record config =
  DEVICE_AREA :: string
  DEVICE_NAME_MQTT :: string
  BOOT_DELAY_MS :: u32
  MANUAL_DELAY_MS :: u32
  TEMP_STEPS_TO_45 :: u16
  IR_GAP_MS :: u16
  WIFI_SSID :: string
  MQTT_HOST :: string
  MQTT_PORT :: u16

text \<open>
  The texts are string literals of the sketch, so they hold no NUL byte. \<open>config_h\<close> has
  the values of config.h and of secrets.example.h as shipped.
\<close>

definition config_h :: config where
  "config_h = \<lparr> DEVICE_AREA = ''bathroom'', DEVICE_NAME_MQTT = ''geyser'',
      BOOT_DELAY_MS = 15000, MANUAL_DELAY_MS = 500, TEMP_STEPS_TO_45 = 20, IR_GAP_MS = 180,
      WIFI_SSID = ''YOUR_WIFI_SSID'', MQTT_HOST = ''MQTT_BROKER_IP'', MQTT_PORT = 1883 \<rparr>"

subsection \<open>Constants of the sketch\<close>

definition HA_DISCOVERY_PREFIX :: string where "HA_DISCOVERY_PREFIX = ''homeassistant''"
definition AVAIL_ONLINE :: string where "AVAIL_ONLINE = ''online''"
definition AVAIL_OFFLINE :: string where "AVAIL_OFFLINE = ''offline''"

definition DEVICE_IDENT :: string where "DEVICE_IDENT = ''olimpia_ir_esp32_01''"
definition DEVICE_NAME :: string where "DEVICE_NAME = ''IR Heater ESP32 (bathroom)''"
definition DEVICE_MODEL :: string where "DEVICE_MODEL = ''ESP32 IR Bridge''"
definition DEVICE_MFR :: string where "DEVICE_MFR = ''DIY''"

definition IR_POWER_TOGGLE :: u32 where "IR_POWER_TOGGLE = 0xFF807F"
definition IR_POWER_LEVEL :: u32 where "IR_POWER_LEVEL = 0xFF00FF"
definition IR_OSCILLATION_TOGGLE :: u32 where "IR_OSCILLATION_TOGGLE = 0xFF20DF"
definition IR_SLEEP_TIMER :: u32 where "IR_SLEEP_TIMER = 0xFF30CF"
definition IR_TEMP_MODE :: u32 where "IR_TEMP_MODE = 0xFFB04F"
definition IR_TEMP_UP :: u32 where "IR_TEMP_UP = 0xFF906F"
definition IR_TEMP_DOWN :: u32 where "IR_TEMP_DOWN = 0xFF10EF"

definition DEBOUNCE_MS :: u32 where "DEBOUNCE_MS = 80"
definition WIFI_RETRY_MS :: u32 where "WIFI_RETRY_MS = 5000"
definition MQTT_RETRY_MS :: u32 where "MQTT_RETRY_MS = 3000"

text \<open>The pin levels of \<^verbatim>\<open>digitalRead\<close>, stored by the sketch in a \<^verbatim>\<open>bool\<close>.\<close>

definition LOW :: bool where "LOW = False"
definition HIGH :: bool where "HIGH = True"

subsection \<open>Reset reasons\<close>

text \<open>
  \<^verbatim>\<open>esp_reset_reason_t\<close> comes from the platform header \<^verbatim>\<open>esp_system.h\<close>: the nine
  values the sketch names, the value \<^verbatim>\<open>ESP_RST_UNKNOWN\<close> and the value \<^verbatim>\<open>ESP_RST_SDIO\<close>,
  both of which fall into the \<^verbatim>\<open>default\<close> branch of \<^verbatim>\<open>resetReasonToString\<close>.
\<close>

datatype esp_reset_reason_t =
    ESP_RST_UNKNOWN | ESP_RST_POWERON | ESP_RST_EXT | ESP_RST_SW | ESP_RST_PANIC
  | ESP_RST_INT_WDT | ESP_RST_TASK_WDT | ESP_RST_WDT | ESP_RST_DEEPSLEEP
  | ESP_RST_BROWNOUT | ESP_RST_SDIO

subsection \<open>The surroundings and the trace\<close>

text \<open>
  \<open>hw_wifi\<close> answers \<^verbatim>\<open>WiFi.status() == WL_CONNECTED\<close>, \<open>hw_sock\<close> whether the TCP socket
  under the MQTT client is still open, \<open>hw_connack\<close> whether \<^verbatim>\<open>mqtt.connect\<close> succeeds,
  \<open>hw_pin\<close> is the level of the restore button pin, \<open>hw_rx\<close> the payload that
  \<^verbatim>\<open>mqtt.loop()\<close> finds waiting on the command topic, if any.
\<close>

record platform =
  hw_reset_reason :: esp_reset_reason_t
  hw_wifi :: "nat \<Rightarrow> bool"
  hw_sock :: "nat \<Rightarrow> bool"
  hw_connack :: "nat \<Rightarrow> bool"
  hw_pin :: "nat \<Rightarrow> bool"
  hw_rx :: "nat \<Rightarrow> string option"

text \<open>
  One event per call that leaves the sketch. \<open>IrSendNEC code bits\<close> is
  \<^verbatim>\<open>irsend.sendNEC(code, bits)\<close>; \<open>MqttPublish topic payload retain\<close> is a publish that the
  client accepted; \<open>MqttConnect will_topic will_payload ok\<close> is a connection attempt and its
  outcome; \<open>SerialLine\<close> is one line of the serial log (the \<^verbatim>\<open>print\<close> calls up to and
  including the closing \<^verbatim>\<open>println\<close>); \<open>LibCall\<close> is an initialisation call with no
  further effect in this model.
\<close>

datatype event =
    IrSendNEC u32 nat
  | Delay u32
  | Yield
  | MqttPublish string string bool
  | MqttSubscribe string
  | MqttConnect string string bool
  | WifiBegin string
  | OtaBegin
  | OtaHandle
  | SerialLine string
  | LibCall string

record state =
  mqttTopicCmd :: string
  mqttTopicStatus :: string
  mqttTopicAvail :: string
  lastBtnState :: bool
  lastBtnChangeMs :: u32
  lastWifiAttemptMs :: u32
  lastMqttAttemptMs :: u32
  discoveryPublished :: bool
  otaStarted :: bool
  bootRestoreScheduled :: bool
  bootRestoreAtMs :: u32
  tAlive :: u32
  clock :: u32
  session :: bool
  tick :: nat
  trace :: "event list"

text \<open>The globals as their initialisers leave them, at the moment the chip starts.\<close>

definition power_up :: state where
  "power_up = \<lparr> mqttTopicCmd = [], mqttTopicStatus = [], mqttTopicAvail = [],
      lastBtnState = True, lastBtnChangeMs = 0,
      lastWifiAttemptMs = 0, lastMqttAttemptMs = 0,
      discoveryPublished = False, otaStarted = False,
      bootRestoreScheduled = False, bootRestoreAtMs = 0, tAlive = 0,
      clock = 0, session = False, tick = 0, trace = [] \<rparr>"

subsection \<open>Platform and library calls\<close>

definition emit :: "event \<Rightarrow> state \<Rightarrow> state" where
  "emit e s = s\<lparr>trace := trace s @ [e]\<rparr>"

text \<open>\<^verbatim>\<open>millis()\<close> reads the clock; \<^verbatim>\<open>delay(ms)\<close> advances it by \<open>ms\<close>, modulo \<open>2^32\<close>.\<close>

definition millis :: "state \<Rightarrow> u32" where
  "millis s = clock s"

definition delay :: "u32 \<Rightarrow> state \<Rightarrow> state" where
  "delay ms s = emit (Delay ms) (s\<lparr>clock := clock s + ms\<rparr>)"

definition yield :: "state \<Rightarrow> state" where
  "yield s = emit Yield s"

definition Serial_println :: "string \<Rightarrow> state \<Rightarrow> state" where
  "Serial_println txt s = emit (SerialLine txt) s"

definition irsend_sendNEC :: "u32 \<Rightarrow> nat \<Rightarrow> state \<Rightarrow> state" where
  "irsend_sendNEC code bits s = emit (IrSendNEC code bits) s"

definition digitalRead :: "platform \<Rightarrow> state \<Rightarrow> bool \<times> state" where
  "digitalRead hw s = (hw_pin hw (tick s), s\<lparr>tick := Suc (tick s)\<rparr>)"

definition wifi_connected :: "platform \<Rightarrow> state \<Rightarrow> bool \<times> state" where
  "wifi_connected hw s = (hw_wifi hw (tick s), s\<lparr>tick := Suc (tick s)\<rparr>)"

text \<open>
  \<^verbatim>\<open>mqtt.connected()\<close>: the client is connected when a session was established and the
  socket is still open; once the socket is found closed the session is over until the
  next successful \<^verbatim>\<open>mqtt.connect\<close>.
\<close>

definition mqtt_connected :: "platform \<Rightarrow> state \<Rightarrow> bool \<times> state" where
  "mqtt_connected hw s =
     (let c = (session s \<and> hw_sock hw (tick s))
      in (c, s\<lparr>session := c, tick := Suc (tick s)\<rparr>))"

text \<open>\<^verbatim>\<open>mqtt.publish\<close> sends only while connected, and reports whether it sent.\<close>

definition mqtt_publish :: "platform \<Rightarrow> string \<Rightarrow> string \<Rightarrow> bool \<Rightarrow> state \<Rightarrow> bool \<times> state" where
  "mqtt_publish hw topic payload retain s =
     (case mqtt_connected hw s of
        (c, s1) \<Rightarrow> if c then (True, emit (MqttPublish topic payload retain) s1)
                   else (False, s1))"

definition mqtt_connect :: "platform \<Rightarrow> string \<Rightarrow> string \<Rightarrow> state \<Rightarrow> bool \<times> state" where
  "mqtt_connect hw willTopic willMessage s =
     (let ok = hw_connack hw (tick s)
      in (ok, emit (MqttConnect willTopic willMessage ok)
                (s\<lparr>session := ok, tick := Suc (tick s)\<rparr>)))"

definition mqtt_subscribe :: "string \<Rightarrow> state \<Rightarrow> state" where
  "mqtt_subscribe topic s = emit (MqttSubscribe topic) s"

subsection \<open>MQTT helpers\<close>

fun decimal :: "nat \<Rightarrow> string" where
  "decimal n = (if n < 10 then [char_of (48 + n)]
                else decimal (n div 10) @ [char_of (48 + n mod 10)])"

declare decimal.simps [simp del]

definition mqttPublish :: "platform \<Rightarrow> string \<Rightarrow> string \<Rightarrow> bool \<Rightarrow> state \<Rightarrow> state" where
  "mqttPublish hw topic payload retain s =
     (case mqtt_publish hw topic payload retain s of
        (ok, s1) \<Rightarrow>
          if \<not> ok
          then Serial_println (''MQTT publish FAILED topic='' @ topic @ '' len=''
                                 @ decimal (length payload)) s1
          else s1)"

definition publishStatus :: "platform \<Rightarrow> string \<Rightarrow> bool \<Rightarrow> state \<Rightarrow> state" where
  "publishStatus hw msg retain s =
     (case mqtt_connected hw s of
        (c, s1) \<Rightarrow> if c then snd (mqtt_publish hw (mqttTopicStatus s1) msg retain s1)
                   else s1)"

definition setAvailability :: "platform \<Rightarrow> string \<Rightarrow> state \<Rightarrow> state" where
  "setAvailability hw st s =
     (case mqtt_connected hw s of
        (c, s1) \<Rightarrow> if c then snd (mqtt_publish hw (mqttTopicAvail s1) st True s1)
                   else s1)"

subsection \<open>Reset reason helpers\<close>

fun resetReasonToString :: "esp_reset_reason_t \<Rightarrow> string" where
  "resetReasonToString ESP_RST_POWERON = ''POWERON''"
| "resetReasonToString ESP_RST_BROWNOUT = ''BROWNOUT''"
| "resetReasonToString ESP_RST_EXT = ''EXT_RESET(EN)''"
| "resetReasonToString ESP_RST_SW = ''SW_RESET''"
| "resetReasonToString ESP_RST_PANIC = ''PANIC''"
| "resetReasonToString ESP_RST_INT_WDT = ''INT_WDT''"
| "resetReasonToString ESP_RST_TASK_WDT = ''TASK_WDT''"
| "resetReasonToString ESP_RST_WDT = ''OTHER_WDT''"
| "resetReasonToString ESP_RST_DEEPSLEEP = ''DEEPSLEEP''"
| "resetReasonToString _ = ''UNKNOWN''"

definition shouldRunRestoreOnBoot :: "esp_reset_reason_t \<Rightarrow> bool" where
  "shouldRunRestoreOnBoot r = ((r = ESP_RST_POWERON) \<or> (r = ESP_RST_BROWNOUT))"

subsection \<open>IR helpers\<close>

definition sendNEC :: "u32 \<Rightarrow> state \<Rightarrow> state" where
  "sendNEC code s =
     (let s1 = irsend_sendNEC code 32 s;
          s2 = delay 50 s1;
          s3 = irsend_sendNEC code 32 s2
      in yield s3)"

definition sendCmd :: "config \<Rightarrow> platform \<Rightarrow> u32 \<Rightarrow> string \<Rightarrow> state \<Rightarrow> state" where
  "sendCmd cfg hw code tag s =
     (let s1 = sendNEC code s;
          s2 = delay (ucast (IR_GAP_MS cfg)) s1;
          s3 = publishStatus hw (''sent:'' @ tag) True s2;
          s4 = Serial_println (''IR sent: '' @ tag) s3;
          s5 = yield s4
      in delay 1 s5)"

text \<open>
  The wait loop of \<^verbatim>\<open>waitMsWithYield\<close>: \<^verbatim>\<open>while (millis() - start < ms) { delay(5); yield(); }\<close>,
  in unsigned 32-bit arithmetic.
\<close>

function waitLoop :: "u32 \<Rightarrow> u32 \<Rightarrow> state \<Rightarrow> state" where
  "waitLoop start ms s =
     (if millis s - start < ms then waitLoop start ms (yield (delay 5 s)) else s)"
  by pat_completeness auto

text \<open>
  The loop ends for every \<open>ms\<close>: the elapsed time grows by 5 per round, 5 is invertible
  modulo \<open>2^32\<close>, so the elapsed time reaches \<open>ms\<close> itself if not something above it first.
  The measure is the number of rounds still to go.
\<close>

termination waitLoop
proof (relation "measure (\<lambda>(start, ms, s). LEAST k. \<not> (millis s - start + 5 * of_nat k < ms))")
  show "wf (measure (\<lambda>(start, ms, s). LEAST k. \<not> (millis s - start + 5 * of_nat k < ms)))"
    by simp
next
  fix start ms :: u32 and s :: state
  assume a: "millis s - start < ms"
  define e where "e = millis s - start"
  let ?P = "\<lambda>k. \<not> (e + 5 * of_nat k < ms)"
  have inv: "(5::u32) * 0xCCCCCCCD = 1" by simp
  have "5 * ((ms - e) * 0xCCCCCCCD) = (ms - e) * (5 * 0xCCCCCCCD)"
    by (rule mult.left_commute)
  also have "\<dots> = ms - e" by (simp only: inv mult_1_right)
  finally have h: "5 * ((ms - e) * 0xCCCCCCCD) = ms - e" .
  have "e + (ms - e) = ms" by (simp only: add_diff_eq add_diff_cancel_left')
  then have "\<not> (e + 5 * ((ms - e) * 0xCCCCCCCD) < ms)"
    by (simp only: h order_less_irrefl not_False_eq_True)
  then have ex: "?P (unat ((ms - e) * 0xCCCCCCCD))" by simp
  have P: "?P (LEAST k. ?P k)" using ex by (rule LeastI)
  have "(LEAST k. ?P k) \<noteq> 0"
  proof
    assume z: "(LEAST k. ?P k) = 0"
    from P have "\<not> (e + 5 * of_nat 0 < ms)" unfolding z .
    with a show False by (simp add: e_def)
  qed
  then obtain m where m: "(LEAST k. ?P k) = Suc m" by (cases "LEAST k. ?P k") auto
  have "\<not> (e + 5 + 5 * of_nat m < ms)" using P unfolding m by (simp add: algebra_simps)
  then have "(LEAST k. \<not> (e + 5 + 5 * of_nat k < ms)) \<le> m" by (rule Least_le)
  then have less: "(LEAST k. \<not> (e + 5 + 5 * of_nat k < ms)) < (LEAST k. ?P k)"
    using m by simp
  have eq: "millis (yield (delay 5 s)) - start = e + 5"
    by (simp add: millis_def yield_def delay_def emit_def e_def)
  show "((start, ms, yield (delay 5 s)), (start, ms, s))
      \<in> measure (\<lambda>(start, ms, s). LEAST k. \<not> (millis s - start + 5 * of_nat k < ms))"
    using less by (simp only: in_measure prod.case eq e_def [symmetric])
qed

declare waitLoop.simps [simp del]

definition waitMsWithYield :: "u32 \<Rightarrow> state \<Rightarrow> state" where
  "waitMsWithYield ms s = (let start = millis s in waitLoop start ms s)"

subsection \<open>Restore macro\<close>

text \<open>
  The \<^verbatim>\<open>for\<close> loop of the macro, with its 16-bit counter:
  \<^verbatim>\<open>for (uint16_t i = 0; i < TEMP_STEPS_TO_45; i++) { sendCmd(IR_TEMP_UP, "temp_up"); yield(); delay(1); }\<close>
\<close>

function tempUpLoop :: "config \<Rightarrow> platform \<Rightarrow> u16 \<Rightarrow> state \<Rightarrow> state" where
  "tempUpLoop cfg hw i s =
     (if i < TEMP_STEPS_TO_45 cfg
      then tempUpLoop cfg hw (i + 1) (delay 1 (yield (sendCmd cfg hw IR_TEMP_UP ''temp_up'' s)))
      else s)"
  by pat_completeness auto

termination tempUpLoop
proof (relation "measure (\<lambda>(cfg, hw, i, s). unat (TEMP_STEPS_TO_45 cfg) - unat i)")
  show "wf (measure (\<lambda>(cfg, hw, i, s). unat (TEMP_STEPS_TO_45 cfg) - unat i))"
    by simp
next
  fix cfg :: config and hw :: platform and i :: u16 and s :: state
  assume a: "i < TEMP_STEPS_TO_45 cfg"
  then have "unat (TEMP_STEPS_TO_45 cfg) - unat (i + 1) < unat (TEMP_STEPS_TO_45 cfg) - unat i"
    by unat_arith
  then show "((cfg, hw, i + 1, delay 1 (yield (sendCmd cfg hw IR_TEMP_UP ''temp_up'' s))),
              (cfg, hw, i, s))
      \<in> measure (\<lambda>(cfg, hw, i, s). unat (TEMP_STEPS_TO_45 cfg) - unat i)"
    by simp
qed

declare tempUpLoop.simps [simp del]

definition restoreTo45AndOff :: "config \<Rightarrow> platform \<Rightarrow> string \<Rightarrow> u32 \<Rightarrow> state \<Rightarrow> state" where
  "restoreTo45AndOff cfg hw triggerTag preDelayMs s =
     (let s1 = publishStatus hw (''restore:start:'' @ triggerTag) True s;
          s2 = Serial_println (''restore:start:'' @ triggerTag) s1;
          s3 = (if preDelayMs > 0 then waitMsWithYield preDelayMs s2 else s2);
          s4 = sendCmd cfg hw IR_POWER_TOGGLE ''power_toggle_on'' s3;
          s5 = sendCmd cfg hw IR_TEMP_MODE ''temp_mode'' s4;
          s6 = tempUpLoop cfg hw 0 s5;
          s7 = sendCmd cfg hw IR_POWER_TOGGLE ''power_toggle_off'' s6;
          s8 = publishStatus hw (''restore:done:'' @ triggerTag) True s7
      in Serial_println (''restore:done:'' @ triggerTag) s8)"

subsection \<open>Topics and Home Assistant discovery\<close>

definition buildMqttTopics :: "config \<Rightarrow> state \<Rightarrow> state" where
  "buildMqttTopics cfg s =
     (let base = ''hvac/'' @ DEVICE_AREA cfg @ ''/'' @ DEVICE_NAME_MQTT cfg
      in s\<lparr>mqttTopicCmd := base @ ''/command'',
            mqttTopicStatus := base @ ''/status'',
            mqttTopicAvail := base @ ''/availability''\<rparr>)"

definition deviceBlockJson :: string where
  \<open>deviceBlockJson =
     ''{''
     @ (''"identifiers":["'' @ DEVICE_IDENT @ ''"],'')
     @ (''"name":"'' @ DEVICE_NAME @ ''",'')
     @ (''"manufacturer":"'' @ DEVICE_MFR @ ''",'')
     @ (''"model":"'' @ DEVICE_MODEL @ ''"'')
     @ ''}''\<close>

definition publishButtonDiscovery ::
  "platform \<Rightarrow> string \<Rightarrow> string \<Rightarrow> string \<Rightarrow> state \<Rightarrow> state" where
  \<open>publishButtonDiscovery hw object_id name payload_press s =
     (let topic = HA_DISCOVERY_PREFIX @ ''/button/'' @ object_id @ ''/config'';
          j = ''{''
              @ (''"name":"'' @ name @ ''",'')
              @ (''"command_topic":"'' @ mqttTopicCmd s @ ''",'')
              @ (''"payload_press":"'' @ payload_press @ ''",'')
              @ (''"availability_topic":"'' @ mqttTopicAvail s @ ''",'')
              @ (''"payload_available":"'' @ AVAIL_ONLINE @ ''",'')
              @ (''"payload_not_available":"'' @ AVAIL_OFFLINE @ ''",'')
              @ (''"unique_id":"'' @ object_id @ ''",'')
              @ (''"device":'' @ deviceBlockJson)
              @ ''}''
      in mqttPublish hw topic j True s)\<close>

definition publishStatusSensorDiscovery :: "platform \<Rightarrow> state \<Rightarrow> state" where
  \<open>publishStatusSensorDiscovery hw s =
     (let object_id = ''olimpia_ir_status_01'';
          topic = HA_DISCOVERY_PREFIX @ ''/sensor/'' @ object_id @ ''/config'';
          j = ''{''
              @ ''"name":"IR Heater Status",''
              @ (''"state_topic":"'' @ mqttTopicStatus s @ ''",'')
              @ (''"availability_topic":"'' @ mqttTopicAvail s @ ''",'')
              @ (''"payload_available":"'' @ AVAIL_ONLINE @ ''",'')
              @ (''"payload_not_available":"'' @ AVAIL_OFFLINE @ ''",'')
              @ (''"unique_id":"'' @ object_id @ ''",'')
              @ (''"device":'' @ deviceBlockJson)
              @ ''}''
      in mqttPublish hw topic j True s)\<close>

definition publishAllDiscovery :: "platform \<Rightarrow> state \<Rightarrow> state" where
  "publishAllDiscovery hw s =
     (let s0 = publishStatusSensorDiscovery hw s;
          s1 = publishButtonDiscovery hw ''ir_btn_power_toggle_01'' ''IR Power Toggle'' ''power_toggle'' s0;
          s2 = publishButtonDiscovery hw ''ir_btn_power_level_01'' ''IR Power Level'' ''power_level'' s1;
          s3 = publishButtonDiscovery hw ''ir_btn_osc_toggle_01'' ''IR Oscillation Toggle'' ''oscillation_toggle'' s2;
          s4 = publishButtonDiscovery hw ''ir_btn_sleep_timer_01'' ''IR Sleep Timer'' ''sleep_timer'' s3;
          s5 = publishButtonDiscovery hw ''ir_btn_temp_mode_01'' ''IR Temp Mode'' ''temp_mode'' s4;
          s6 = publishButtonDiscovery hw ''ir_btn_temp_up_01'' ''IR Temp Up'' ''temp_up'' s5;
          s7 = publishButtonDiscovery hw ''ir_btn_temp_down_01'' ''IR Temp Down'' ''temp_down'' s6;
          s8 = publishButtonDiscovery hw ''ir_btn_restore_45_off_01'' ''Restore 45C + OFF'' ''restore_state'' s7;
          s9 = publishStatus hw ''discovery:published'' True s8
      in Serial_println ''HA discovery published (retained).'' s9)"

subsection \<open>MQTT command handler\<close>

text \<open>
  An Arduino \<^verbatim>\<open>String\<close> keeps its length, so it may hold NUL bytes: \<^verbatim>\<open>msg += (char)b\<close>
  appends any byte. Its text is a list of characters. \<^verbatim>\<open>c_str()\<close> is read by C functions
  up to the first NUL, so \<^verbatim>\<open>cmd == "literal"\<close>, which is \<^verbatim>\<open>strcmp\<close> on the two buffers,
  compares the texts up to their first NUL.
\<close>

definition NUL :: char where
  "NUL = CHR 0x00"

definition c_str :: "string \<Rightarrow> string" where
  "c_str msg = takeWhile (\<lambda>c. c \<noteq> NUL) msg"

definition String_equals :: "string \<Rightarrow> string \<Rightarrow> bool" where
  "String_equals msg cstr = (c_str msg = c_str cstr)"

definition handleCommand :: "config \<Rightarrow> platform \<Rightarrow> string \<Rightarrow> state \<Rightarrow> state" where
  "handleCommand cfg hw cmd s0 =
     (let s = Serial_println (''MQTT cmd: '' @ cmd) s0
      in if String_equals cmd ''power_toggle'' then sendCmd cfg hw IR_POWER_TOGGLE ''power_toggle'' s
         else if String_equals cmd ''power_level'' then sendCmd cfg hw IR_POWER_LEVEL ''power_level'' s
         else if String_equals cmd ''oscillation_toggle''
              then sendCmd cfg hw IR_OSCILLATION_TOGGLE ''oscillation_toggle'' s
         else if String_equals cmd ''sleep_timer'' then sendCmd cfg hw IR_SLEEP_TIMER ''sleep_timer'' s
         else if String_equals cmd ''temp_mode'' then sendCmd cfg hw IR_TEMP_MODE ''temp_mode'' s
         else if String_equals cmd ''temp_up'' then sendCmd cfg hw IR_TEMP_UP ''temp_up'' s
         else if String_equals cmd ''temp_down'' then sendCmd cfg hw IR_TEMP_DOWN ''temp_down'' s
         else if String_equals cmd ''restore_state''
              then restoreTo45AndOff cfg hw ''mqtt'' (MANUAL_DELAY_MS cfg) s
         else Serial_println ''error:unknown_cmd''
                (publishStatus hw ''error:unknown_cmd'' True s))"

text \<open>
  \<^verbatim>\<open>String::trim\<close> drops the characters that \<^verbatim>\<open>isspace\<close> accepts from both ends of the
  text, by its length. \<^verbatim>\<open>String::toLowerCase\<close> walks the buffer up to the first NUL and
  replaces each character by its \<^verbatim>\<open>tolower\<close> (the C locale: only the letters A to Z
  change); what follows the first NUL stays as it is.
\<close>

definition isspace :: "char \<Rightarrow> bool" where
  "isspace c = (let n = (of_char c :: nat) in n = 32 \<or> (9 \<le> n \<and> n \<le> 13))"

definition tolower :: "char \<Rightarrow> char" where
  "tolower c = (let n = (of_char c :: nat) in if 65 \<le> n \<and> n \<le> 90 then char_of (n + 32) else c)"

definition String_trim :: "string \<Rightarrow> string" where
  "String_trim msg = rev (dropWhile isspace (rev (dropWhile isspace msg)))"

definition String_toLowerCase :: "string \<Rightarrow> string" where
  "String_toLowerCase msg =
     map tolower (takeWhile (\<lambda>c. c \<noteq> NUL) msg) @ dropWhile (\<lambda>c. c \<noteq> NUL) msg"

definition mqttCallback :: "config \<Rightarrow> platform \<Rightarrow> string \<Rightarrow> state \<Rightarrow> state" where
  "mqttCallback cfg hw payload s =
     (let msg = payload;
          msg = String_trim msg;
          msg = String_toLowerCase msg
      in handleCommand cfg hw msg s)"

text \<open>
  \<^verbatim>\<open>mqtt.loop()\<close>: while connected, the client hands one waiting message, if there is
  one, to the callback the sketch registered.
\<close>

definition mqtt_loop :: "config \<Rightarrow> platform \<Rightarrow> state \<Rightarrow> state" where
  "mqtt_loop cfg hw s =
     (case mqtt_connected hw s of
        (c, s1) \<Rightarrow>
          if c
          then (case hw_rx hw (tick s1) of
                  None \<Rightarrow> s1\<lparr>tick := Suc (tick s1)\<rparr>
                | Some payload \<Rightarrow> mqttCallback cfg hw payload (s1\<lparr>tick := Suc (tick s1)\<rparr>))
          else s1)"

subsection \<open>Button polling\<close>

definition pollRestoreButton :: "config \<Rightarrow> platform \<Rightarrow> state \<Rightarrow> state" where
  "pollRestoreButton cfg hw s =
     (case digitalRead hw s of
        (cur, s1) \<Rightarrow>
          if cur \<noteq> lastBtnState s1 \<and> millis s1 - lastBtnChangeMs s1 > DEBOUNCE_MS
          then (let s2 = s1\<lparr>lastBtnChangeMs := millis s1\<rparr>;
                    s3 = s2\<lparr>lastBtnState := cur\<rparr>
                in if cur = LOW
                   then (let s4 = publishStatus hw ''button:restore_pressed'' True s3;
                             s5 = Serial_println ''button:restore_pressed'' s4
                         in restoreTo45AndOff cfg hw ''button'' (MANUAL_DELAY_MS cfg) s5)
                   else s3)
          else s1)"

subsection \<open>WiFi and MQTT, non-blocking reconnect\<close>

definition ensureWiFiNonBlocking :: "config \<Rightarrow> platform \<Rightarrow> state \<Rightarrow> state" where
  "ensureWiFiNonBlocking cfg hw s =
     (case wifi_connected hw s of
        (up, s1) \<Rightarrow>
          if up then s1
          else (let now = millis s1
                in if now - lastWifiAttemptMs s1 < WIFI_RETRY_MS then s1
                   else (let s2 = s1\<lparr>lastWifiAttemptMs := now\<rparr>;
                             s3 = Serial_println (''WiFi: connecting to '' @ WIFI_SSID cfg) s2;
                             s4 = emit (LibCall ''WiFi.mode(WIFI_STA)'') s3
                         in emit (WifiBegin (WIFI_SSID cfg)) s4)))"

definition ensureMQTTNonBlocking :: "config \<Rightarrow> platform \<Rightarrow> state \<Rightarrow> state" where
  "ensureMQTTNonBlocking cfg hw s =
     (case wifi_connected hw s of
        (up, s1) \<Rightarrow>
          if \<not> up then s1
          else (case mqtt_connected hw s1 of
                  (c, s2) \<Rightarrow>
                    if c then s2
                    else (let now = millis s2
                          in if now - lastMqttAttemptMs s2 < MQTT_RETRY_MS then s2
                             else (let s3 = s2\<lparr>lastMqttAttemptMs := now\<rparr>;
                                       s4 = Serial_println (''MQTT: connecting to '' @ MQTT_HOST cfg
                                              @ '':'' @ decimal (unat (MQTT_PORT cfg))) s3
                                   in case mqtt_connect hw (mqttTopicAvail s4) AVAIL_OFFLINE s4 of
                                        (ok, s5) \<Rightarrow>
                                          if ok
                                          then (let s6 = Serial_println ''MQTT: connected'' s5;
                                                    s7 = mqtt_subscribe (mqttTopicCmd s6) s6;
                                                    s8 = setAvailability hw AVAIL_ONLINE s7;
                                                    s9 = publishStatus hw ''online'' True s8
                                                in s9\<lparr>discoveryPublished := False\<rparr>)
                                          else Serial_println ''MQTT: FAILED, state=<mqtt.state()>'' s5))))"

subsection \<open>Arduino lifecycle\<close>

text \<open>
  \<^verbatim>\<open>setupOTA\<close> registers the handlers and starts the update service. The update sessions
  that \<^verbatim>\<open>ArduinoOTA.handle()\<close> may serve are outside this model: the call is an event.
\<close>

definition setupOTA :: "state \<Rightarrow> state" where
  "setupOTA s =
     (let s1 = emit (LibCall ''ArduinoOTA.setHostname'') s;
          s2 = emit (LibCall ''ArduinoOTA.setPassword'') s1;
          s3 = emit (LibCall ''ArduinoOTA.onStart'') s2;
          s4 = emit (LibCall ''ArduinoOTA.onEnd'') s3;
          s5 = emit (LibCall ''ArduinoOTA.onError'') s4;
          s6 = emit OtaBegin s5
      in Serial_println ''OTA: ready'' s6)"

definition setup_ino :: "config \<Rightarrow> platform \<Rightarrow> state \<Rightarrow> state" where
  "setup_ino cfg hw s =
     (let s1 = emit (LibCall ''Serial.begin(115200)'') s;
          s2 = delay 200 s1;
          s3 = Serial_println [] s2;
          s4 = Serial_println ''SETUP: start'' s3;
          s5 = buildMqttTopics cfg s4;
          s6 = Serial_println (''MQTT topics: '' @ mqttTopicCmd s5 @ '' | '' @ mqttTopicStatus s5
                                 @ '' | '' @ mqttTopicAvail s5) s5;
          s7 = emit (LibCall ''pinMode(PIN_BTN_RESTORE, INPUT_PULLUP)'') s6;
          s8 = emit (LibCall ''irsend.begin'') s7;
          s9 = emit (LibCall ''mqtt.setServer'') s8;
          s10 = emit (LibCall ''mqtt.setCallback'') s9;
          s11 = emit (LibCall ''mqtt.setBufferSize(2048)'') s10;
          r = hw_reset_reason hw;
          s12 = Serial_println (''boot:reset_reason:'' @ resetReasonToString r) s11;
          s13 = (if shouldRunRestoreOnBoot r
                 then (let a = s12\<lparr>bootRestoreScheduled := True\<rparr>;
                           b = a\<lparr>bootRestoreAtMs := millis a + BOOT_DELAY_MS cfg\<rparr>
                       in Serial_println (''boot:powerloss restore scheduled at +ms=''
                                            @ decimal (unat (BOOT_DELAY_MS cfg))) b)
                 else s12)
      in ensureWiFiNonBlocking cfg hw s13)"

text \<open>The blocks of \<^verbatim>\<open>loop()\<close>, in the order of the source, then \<^verbatim>\<open>loop()\<close> itself.\<close>

definition loop_alive :: "platform \<Rightarrow> state \<Rightarrow> state" where
  "loop_alive hw s =
     (if millis s - tAlive s > 10000
      then (let s1 = s\<lparr>tAlive := millis s\<rparr>
            in case wifi_connected hw s1 of
                 (w, s2) \<Rightarrow>
                   (case mqtt_connected hw s2 of
                      (m, s3) \<Rightarrow>
                        Serial_println (''LOOP: alive | WiFi='' @ (if w then ''OK'' else ''NO'')
                                          @ '' | MQTT='' @ (if m then ''OK'' else ''NO'')) s3))
      else s)"

definition loop_ota :: "platform \<Rightarrow> state \<Rightarrow> state" where
  "loop_ota hw s =
     (case wifi_connected hw s of
        (w, s1) \<Rightarrow>
          (let s2 = (if w \<and> \<not> otaStarted s1
                     then (let a = s1\<lparr>otaStarted := True\<rparr>;
                               b = Serial_println ''WiFi: OK, IP=<localIP>'' a;
                               c = Serial_println ''WiFi gateway: <gatewayIP>'' b;
                               d = Serial_println ''WiFi RSSI: <RSSI>'' c
                           in setupOTA d)
                     else s1)
           in if otaStarted s2 then emit OtaHandle s2 else s2))"

definition loop_discovery :: "platform \<Rightarrow> state \<Rightarrow> state" where
  "loop_discovery hw s =
     (if \<not> discoveryPublished s
      then (let s1 = publishAllDiscovery hw s;
                s2 = s1\<lparr>discoveryPublished := True\<rparr>;
                r = hw_reset_reason hw;
                s3 = publishStatus hw (''boot:reset_reason:'' @ resetReasonToString r) True s2
            in publishStatus hw ''ready'' True s3)
      else s)"

definition loop_session :: "config \<Rightarrow> platform \<Rightarrow> state \<Rightarrow> state" where
  "loop_session cfg hw s =
     (case mqtt_connected hw s of
        (c, s1) \<Rightarrow>
          if c
          then (let s2 = mqtt_loop cfg hw s1
                in loop_discovery hw s2)
          else s1)"

definition loop_bootRestore :: "config \<Rightarrow> platform \<Rightarrow> state \<Rightarrow> state" where
  "loop_bootRestore cfg hw s =
     (if bootRestoreScheduled s \<and> millis s \<ge> bootRestoreAtMs s
      then (let s1 = s\<lparr>bootRestoreScheduled := False\<rparr>;
                s2 = (case mqtt_connected hw s1 of
                        (c, a) \<Rightarrow>
                          if c then publishStatus hw ''boot:powerloss_restore:run'' True a else a)
            in restoreTo45AndOff cfg hw ''boot_powerloss'' 0 s2)
      else s)"

definition loop :: "config \<Rightarrow> platform \<Rightarrow> state \<Rightarrow> state" where
  "loop cfg hw s =
     (let s1 = loop_alive hw s;
          s2 = ensureWiFiNonBlocking cfg hw s1;
          s3 = loop_ota hw s2;
          s4 = ensureMQTTNonBlocking cfg hw s3;
          s5 = loop_session cfg hw s4;
          s6 = loop_bootRestore cfg hw s5;
          s7 = pollRestoreButton cfg hw s6
      in delay 1 s7)"

subsection \<open>Running the sketch\<close>

text \<open>
  \<open>boot\<close> is the state in which \<^verbatim>\<open>loop()\<close> is first entered. Between two rounds of
  \<^verbatim>\<open>loop()\<close> any amount of time may pass (\<open>idle\<close>); \<open>run\<close> performs one round per
  element of the list, after the pause it names.
\<close>

definition boot :: "config \<Rightarrow> platform \<Rightarrow> state" where
  "boot cfg hw = setup_ino cfg hw power_up"

definition idle :: "u32 \<Rightarrow> state \<Rightarrow> state" where
  "idle dt s = s\<lparr>clock := clock s + dt\<rparr>"

fun run :: "config \<Rightarrow> platform \<Rightarrow> u32 list \<Rightarrow> state \<Rightarrow> state" where
  "run cfg hw [] s = s"
| "run cfg hw (dt # dts) s = run cfg hw dts (loop cfg hw (idle dt s))"

subsection \<open>Reading a trace\<close>

text \<open>
  \<open>ir_frames\<close> are the frames handed to the IR transmitter, \<open>published\<close> the messages the
  broker received, both in order. \<open>calls\<close> drops the pauses (\<^verbatim>\<open>delay\<close>, \<^verbatim>\<open>yield\<close>) from a
  trace and \<open>local_calls\<close> drops the publications as well. \<open>globals\<close> are the variables of
  the sketch.
\<close>

fun ir_of :: "event \<Rightarrow> (u32 \<times> nat) list" where
  "ir_of (IrSendNEC code bits) = [(code, bits)]"
| "ir_of _ = []"

fun pub_of :: "event \<Rightarrow> (string \<times> string \<times> bool) list" where
  "pub_of (MqttPublish topic payload retain) = [(topic, payload, retain)]"
| "pub_of _ = []"

fun is_pause :: "event \<Rightarrow> bool" where
  "is_pause (Delay _) = True"
| "is_pause Yield = True"
| "is_pause _ = False"

fun is_publish :: "event \<Rightarrow> bool" where
  "is_publish (MqttPublish _ _ _) = True"
| "is_publish _ = False"

definition ir_frames :: "event list \<Rightarrow> (u32 \<times> nat) list" where
  "ir_frames tr = concat (map ir_of tr)"

definition published :: "event list \<Rightarrow> (string \<times> string \<times> bool) list" where
  "published tr = concat (map pub_of tr)"

definition calls :: "event list \<Rightarrow> event list" where
  "calls tr = filter (\<lambda>e. \<not> is_pause e) tr"

definition local_calls :: "event list \<Rightarrow> event list" where
  "local_calls tr = filter (\<lambda>e. \<not> is_pause e \<and> \<not> is_publish e) tr"

definition globals :: "state \<Rightarrow>
    (string \<times> string \<times> string) \<times> (bool \<times> u32) \<times> (u32 \<times> u32) \<times> (bool \<times> bool) \<times> (bool \<times> u32) \<times> u32" where
  "globals s =
     ((mqttTopicCmd s, mqttTopicStatus s, mqttTopicAvail s),
      (lastBtnState s, lastBtnChangeMs s),
      (lastWifiAttemptMs s, lastMqttAttemptMs s),
      (discoveryPublished s, otaStarted s),
      (bootRestoreScheduled s, bootRestoreAtMs s),
      tAlive s)"

text \<open>
  What one labelled transmission and one run of the restore macro are expected to leave in
  a trace, pauses apart: \<open>up\<close> says whether the status messages reach the broker, \<open>topic\<close> is
  the status topic.
\<close>

definition cmd_script :: "string \<Rightarrow> bool \<Rightarrow> u32 \<Rightarrow> string \<Rightarrow> event list" where
  "cmd_script topic up code tag =
     [IrSendNEC code 32, IrSendNEC code 32]
     @ (if up then [MqttPublish topic (''sent:'' @ tag) True] else [])
     @ [SerialLine (''IR sent: '' @ tag)]"

definition restore_script :: "config \<Rightarrow> string \<Rightarrow> bool \<Rightarrow> string \<Rightarrow> event list" where
  "restore_script cfg topic up triggerTag =
     (if up then [MqttPublish topic (''restore:start:'' @ triggerTag) True] else [])
     @ [SerialLine (''restore:start:'' @ triggerTag)]
     @ cmd_script topic up IR_POWER_TOGGLE ''power_toggle_on''
     @ cmd_script topic up IR_TEMP_MODE ''temp_mode''
     @ concat (replicate (unat (TEMP_STEPS_TO_45 cfg)) (cmd_script topic up IR_TEMP_UP ''temp_up''))
     @ cmd_script topic up IR_POWER_TOGGLE ''power_toggle_off''
     @ (if up then [MqttPublish topic (''restore:done:'' @ triggerTag) True] else [])
     @ [SerialLine (''restore:done:'' @ triggerTag)]"

text \<open>
  The frames of one transmitter invocation, and the pulse codes of the restore macro in
  the order of its steps.
\<close>

definition transmission :: "u32 \<Rightarrow> (u32 \<times> nat) list" where
  "transmission code = [(code, 32), (code, 32)]"

definition restore_codes :: "config \<Rightarrow> u32 list" where
  "restore_codes cfg =
     [IR_POWER_TOGGLE] @ [IR_TEMP_MODE]
     @ replicate (unat (TEMP_STEPS_TO_45 cfg)) IR_TEMP_UP
     @ [IR_POWER_TOGGLE]"

text \<open>The status message that \<^verbatim>\<open>publishStatus\<close> sends with its default \<^verbatim>\<open>retain = true\<close>.\<close>

definition status_msg :: "state \<Rightarrow> string \<Rightarrow> string \<times> string \<times> bool" where
  "status_msg s payload = (mqttTopicStatus s, payload, True)"

text \<open>
  The single-code commands of \<^verbatim>\<open>handleCommand\<close>, each with its pulse code; the status tag
  of a command is the command itself. With \<^verbatim>\<open>restore_state\<close> they are the commands the
  device recognises.
\<close>

definition command_table :: "(string \<times> u32) list" where
  "command_table =
     [(''power_toggle'', IR_POWER_TOGGLE),
      (''power_level'', IR_POWER_LEVEL),
      (''oscillation_toggle'', IR_OSCILLATION_TOGGLE),
      (''sleep_timer'', IR_SLEEP_TIMER),
      (''temp_mode'', IR_TEMP_MODE),
      (''temp_up'', IR_TEMP_UP),
      (''temp_down'', IR_TEMP_DOWN)]"

definition recognized :: "string list" where
  "recognized = map fst command_table @ [''restore_state'']"

text \<open>Connection attempts in a trace: calls of \<^verbatim>\<open>WiFi.begin\<close> and of \<^verbatim>\<open>mqtt.connect\<close>.\<close>

fun is_wifi_attempt :: "event \<Rightarrow> bool" where
  "is_wifi_attempt (WifiBegin _) = True"
| "is_wifi_attempt _ = False"

fun is_mqtt_attempt :: "event \<Rightarrow> bool" where
  "is_mqtt_attempt (MqttConnect _ _ _) = True"
| "is_mqtt_attempt _ = False"

definition wifi_attempts :: "event list \<Rightarrow> nat" where
  "wifi_attempts tr = length (filter is_wifi_attempt tr)"

definition mqtt_attempts :: "event list \<Rightarrow> nat" where
  "mqtt_attempts tr = length (filter is_mqtt_attempt tr)"

text \<open>
  The session log of a trace: \<open>Connected\<close> for every successful \<^verbatim>\<open>mqtt.connect\<close>,
  \<open>Discovered\<close> for every completed call of \<^verbatim>\<open>publishAllDiscovery\<close>, which ends with a
  line of the serial log that nothing else writes. \<open>once_per_session fresh\<close> accepts the
  logs in which every \<open>Discovered\<close> has a \<open>Connected\<close> between itself and the one before;
  \<open>fresh\<close> says whether a connection precedes the log.
\<close>

datatype mark = Connected | Discovered

fun mark_of :: "event \<Rightarrow> mark list" where
  "mark_of (MqttConnect _ _ ok) = (if ok then [Connected] else [])"
| "mark_of (SerialLine txt) =
     (if txt = ''HA discovery published (retained).'' then [Discovered] else [])"
| "mark_of _ = []"

definition session_log :: "event list \<Rightarrow> mark list" where
  "session_log tr = concat (map mark_of tr)"

fun once_per_session :: "bool \<Rightarrow> mark list \<Rightarrow> bool" where
  "once_per_session fresh [] = True"
| "once_per_session fresh (Connected # ms) = once_per_session True ms"
| "once_per_session fresh (Discovered # ms) = (fresh \<and> once_per_session False ms)"

text \<open>
  The runs of the restore macro that the boot trigger started: the macro logs its trigger
  tag on the serial line when it starts, and only the boot trigger passes this one.
\<close>

definition boot_runs :: "event list \<Rightarrow> nat" where
  "boot_runs tr = length (filter (\<lambda>e. e = SerialLine ''restore:start:boot_powerloss'') tr)"

text \<open>
  The discovery set: the status sensor and the eight buttons, as \<^verbatim>\<open>publishAllDiscovery\<close>
  names them, each a retained message on its configuration topic.
\<close>

definition discovery_topics :: "string list" where
  "discovery_topics =
     [''homeassistant/sensor/olimpia_ir_status_01/config'',
      ''homeassistant/button/ir_btn_power_toggle_01/config'',
      ''homeassistant/button/ir_btn_power_level_01/config'',
      ''homeassistant/button/ir_btn_osc_toggle_01/config'',
      ''homeassistant/button/ir_btn_sleep_timer_01/config'',
      ''homeassistant/button/ir_btn_temp_mode_01/config'',
      ''homeassistant/button/ir_btn_temp_up_01/config'',
      ''homeassistant/button/ir_btn_temp_down_01/config'',
      ''homeassistant/button/ir_btn_restore_45_off_01/config'']"

subsection \<open>Concrete surroundings\<close>

text \<open>
  \<open>hw_online\<close>: after a power-on reset, link and broker always there, button released, no
  inbound message. \<open>hw_offline\<close>: after a brownout, no link and no broker.
  \<open>hw_glitch\<close>: as \<open>hw_offline\<close>, but the button pin reads low at the second read only.
\<close>

definition hw_online :: platform where
  "hw_online = \<lparr> hw_reset_reason = ESP_RST_POWERON, hw_wifi = (\<lambda>_. True),
      hw_sock = (\<lambda>_. True), hw_connack = (\<lambda>_. True), hw_pin = (\<lambda>_. True),
      hw_rx = (\<lambda>_. None) \<rparr>"

definition hw_offline :: platform where
  "hw_offline = \<lparr> hw_reset_reason = ESP_RST_BROWNOUT, hw_wifi = (\<lambda>_. False),
      hw_sock = (\<lambda>_. False), hw_connack = (\<lambda>_. False), hw_pin = (\<lambda>_. True),
      hw_rx = (\<lambda>_. None) \<rparr>"

definition hw_glitch :: platform where
  "hw_glitch = hw_offline\<lparr> hw_pin := (\<lambda>n. n \<noteq> 1) \<rparr>"

text \<open>
  Polling for the link, and for the session, once per cooldown interval: \<open>n\<close> rounds, each
  one cooldown interval after the one before.
\<close>

fun wifi_polls :: "config \<Rightarrow> platform \<Rightarrow> nat \<Rightarrow> state \<Rightarrow> state" where
  "wifi_polls cfg hw 0 s = s"
| "wifi_polls cfg hw (Suc n) s =
     wifi_polls cfg hw n (ensureWiFiNonBlocking cfg hw (idle WIFI_RETRY_MS s))"

fun mqtt_polls :: "config \<Rightarrow> platform \<Rightarrow> nat \<Rightarrow> state \<Rightarrow> state" where
  "mqtt_polls cfg hw 0 s = s"
| "mqtt_polls cfg hw (Suc n) s =
     mqtt_polls cfg hw n (ensureMQTTNonBlocking cfg hw (idle MQTT_RETRY_MS s))"

text \<open>\<open>hw_no_broker\<close>: the link is up, the broker refuses every connection.\<close>

definition hw_no_broker :: platform where
  "hw_no_broker = hw_online\<lparr> hw_sock := (\<lambda>_. False), hw_connack := (\<lambda>_. False) \<rparr>"

text \<open>
  \<open>mqtt_due\<close>: the condition under which \<^verbatim>\<open>ensureMQTTNonBlocking\<close> reaches \<^verbatim>\<open>mqtt.connect\<close>:
  the link is up, the client is not connected and the cooldown interval has passed since
  the last attempt. \<open>btn_accepted\<close>: the condition under which \<^verbatim>\<open>pollRestoreButton\<close>
  accepts the level it reads: it differs from the last accepted level and more than the
  debounce interval has passed since the last accepted change.
\<close>

definition mqtt_due :: "platform \<Rightarrow> state \<Rightarrow> bool" where
  "mqtt_due hw s = (hw_wifi hw (tick s) \<and> \<not> (session s \<and> hw_sock hw (Suc (tick s)))
                      \<and> MQTT_RETRY_MS \<le> millis s - lastMqttAttemptMs s)"

definition btn_accepted :: "platform \<Rightarrow> state \<Rightarrow> bool" where
  "btn_accepted hw s = (hw_pin hw (tick s) \<noteq> lastBtnState s
                          \<and> DEBOUNCE_MS < millis s - lastBtnChangeMs s)"

text \<open>
  Bookkeeping for whole runs. \<open>quiet_step s s'\<close>: from \<open>s\<close> to \<open>s'\<close> the session log and the
  count of boot runs stay as they are, the discovery flag and the boot trigger are not
  written, and no session is established. \<open>session_inv\<close> ties the discovery flag to the
  session log. \<open>boot_budget\<close> counts the boot runs made and the one still pending.
\<close>

definition quiet_step :: "state \<Rightarrow> state \<Rightarrow> bool" where
  "quiet_step s s' =
     (session_log (trace s') = session_log (trace s)
      \<and> boot_runs (trace s') = boot_runs (trace s)
      \<and> discoveryPublished s' = discoveryPublished s
      \<and> bootRestoreScheduled s' = bootRestoreScheduled s
      \<and> bootRestoreAtMs s' = bootRestoreAtMs s
      \<and> (session s' \<longrightarrow> session s))"

definition session_inv :: "state \<Rightarrow> bool" where
  "session_inv s =
     (once_per_session False (session_log (trace s))
      \<and> (discoveryPublished s \<longleftrightarrow>
           session_log (trace s) \<noteq> [] \<and> last (session_log (trace s)) = Discovered)
      \<and> (session s \<longrightarrow> session_log (trace s) \<noteq> []))"

definition boot_budget :: "state \<Rightarrow> nat" where
  "boot_budget s = boot_runs (trace s) + (if bootRestoreScheduled s then 1 else 0)"

text \<open>
  \<open>log_quiet\<close> is the part of \<open>quiet_step\<close> that concerns the session, \<open>boot_step\<close> what
  every step of the sketch respects about the boot trigger: the fire-at time stays, the
  trigger is not armed, and a boot run is made only by using up the pending one.
\<close>

definition log_quiet :: "state \<Rightarrow> state \<Rightarrow> bool" where
  "log_quiet s s' =
     (session_log (trace s') = session_log (trace s)
      \<and> discoveryPublished s' = discoveryPublished s
      \<and> (session s' \<longrightarrow> session s))"

definition boot_step :: "state \<Rightarrow> state \<Rightarrow> bool" where
  "boot_step s s' =
     (bootRestoreAtMs s' = bootRestoreAtMs s
      \<and> (bootRestoreScheduled s' \<longrightarrow> bootRestoreScheduled s)
      \<and> boot_budget s' = boot_budget s)"

text \<open>\<open>boot_quiet\<close> is the part of \<open>quiet_step\<close> that concerns the boot trigger.\<close>

definition boot_quiet :: "state \<Rightarrow> state \<Rightarrow> bool" where
  "boot_quiet s s' =
     (boot_runs (trace s') = boot_runs (trace s)
      \<and> bootRestoreScheduled s' = bootRestoreScheduled s
      \<and> bootRestoreAtMs s' = bootRestoreAtMs s)"

text \<open>The part of \<^verbatim>\<open>loop()\<close> that comes before the check of the boot trigger.\<close>

definition loop_before_boot_check :: "config \<Rightarrow> platform \<Rightarrow> state \<Rightarrow> state" where
  "loop_before_boot_check cfg hw s =
     loop_session cfg hw
       (ensureMQTTNonBlocking cfg hw
          (loop_ota hw (ensureWiFiNonBlocking cfg hw (loop_alive hw s))))"

text \<open>
  The messages of the discovery set, as \<^verbatim>\<open>publishStatusSensorDiscovery\<close> and
  \<^verbatim>\<open>publishButtonDiscovery\<close> build them: topic, descriptor, retained.
\<close>

definition sensor_config :: "state \<Rightarrow> string \<times> string \<times> bool" where
  \<open>sensor_config s =
     (HA_DISCOVERY_PREFIX @ ''/sensor/'' @ ''olimpia_ir_status_01'' @ ''/config'',
      ''{''
      @ ''"name":"IR Heater Status",''
      @ (''"state_topic":"'' @ mqttTopicStatus s @ ''",'')
      @ (''"availability_topic":"'' @ mqttTopicAvail s @ ''",'')
      @ (''"payload_available":"'' @ AVAIL_ONLINE @ ''",'')
      @ (''"payload_not_available":"'' @ AVAIL_OFFLINE @ ''",'')
      @ (''"unique_id":"'' @ ''olimpia_ir_status_01'' @ ''",'')
      @ (''"device":'' @ deviceBlockJson)
      @ ''}'',
      True)\<close>

definition button_config :: "state \<Rightarrow> string \<Rightarrow> string \<Rightarrow> string \<Rightarrow> string \<times> string \<times> bool" where
  \<open>button_config s object_id name payload_press =
     (HA_DISCOVERY_PREFIX @ ''/button/'' @ object_id @ ''/config'',
      ''{''
      @ (''"name":"'' @ name @ ''",'')
      @ (''"command_topic":"'' @ mqttTopicCmd s @ ''",'')
      @ (''"payload_press":"'' @ payload_press @ ''",'')
      @ (''"availability_topic":"'' @ mqttTopicAvail s @ ''",'')
      @ (''"payload_available":"'' @ AVAIL_ONLINE @ ''",'')
      @ (''"payload_not_available":"'' @ AVAIL_OFFLINE @ ''",'')
      @ (''"unique_id":"'' @ object_id @ ''",'')
      @ (''"device":'' @ deviceBlockJson)
      @ ''}'',
      True)\<close>

definition discovery_set :: "state \<Rightarrow> (string \<times> string \<times> bool) list" where
  "discovery_set s =
     [sensor_config s,
      button_config s ''ir_btn_power_toggle_01'' ''IR Power Toggle'' ''power_toggle'',
      button_config s ''ir_btn_power_level_01'' ''IR Power Level'' ''power_level'',
      button_config s ''ir_btn_osc_toggle_01'' ''IR Oscillation Toggle'' ''oscillation_toggle'',
      button_config s ''ir_btn_sleep_timer_01'' ''IR Sleep Timer'' ''sleep_timer'',
      button_config s ''ir_btn_temp_mode_01'' ''IR Temp Mode'' ''temp_mode'',
      button_config s ''ir_btn_temp_up_01'' ''IR Temp Up'' ''temp_up'',
      button_config s ''ir_btn_temp_down_01'' ''IR Temp Down'' ''temp_down'',
      button_config s ''ir_btn_restore_45_off_01'' ''Restore 45C + OFF'' ''restore_state'']"

text \<open>
  \<open>on_step s s' msgs\<close>: from \<open>s\<close> to \<open>s'\<close> the session lasts, the variables of the sketch
  stay as they are and exactly \<open>msgs\<close> are published.
\<close>

definition on_step :: "state \<Rightarrow> state \<Rightarrow> (string \<times> string \<times> bool) list \<Rightarrow> bool" where
  "on_step s s' msgs =
     (session s' \<and> globals s' = globals s \<and> published (trace s') = published (trace s) @ msgs)"

text \<open>
  \<open>offline_inv\<close>: as long as the session log is empty nothing has been published and the
  client is not connected. \<open>off_step\<close> is what every step of the sketch respects about it.
\<close>

definition off_step :: "state \<Rightarrow> state \<Rightarrow> bool" where
  "off_step s s' =
     (session_log (trace s') = [] \<longrightarrow>
        session_log (trace s) = []
        \<and> (\<not> session s \<longrightarrow> published (trace s') = published (trace s) \<and> \<not> session s'))"

definition offline_inv :: "state \<Rightarrow> bool" where
  "offline_inv s = (session_log (trace s) = [] \<longrightarrow> published (trace s) = [] \<and> \<not> session s)"

text \<open>
  What the broker sees of a trace: the connection attempts and the publications, in order.
  \<open>descriptor_once t seen tr\<close>: no two publications on topic \<open>t\<close> in \<open>tr\<close> without a
  successful connection between them, and none before the first successful connection
  when \<open>seen\<close> holds; \<open>descriptor_seen\<close> is whether \<open>t\<close> has been published since the last
  successful connection.
\<close>

fun on_wire :: "event \<Rightarrow> bool" where
  "on_wire (MqttPublish _ _ _) = True"
| "on_wire (MqttConnect _ _ _) = True"
| "on_wire _ = False"

definition wire :: "event list \<Rightarrow> event list" where
  "wire tr = filter on_wire tr"

fun descriptor_seen :: "string \<Rightarrow> bool \<Rightarrow> event list \<Rightarrow> bool" where
  "descriptor_seen t seen [] = seen"
| "descriptor_seen t seen (MqttConnect _ _ ok # es) = descriptor_seen t (seen \<and> \<not> ok) es"
| "descriptor_seen t seen (MqttPublish t' _ _ # es) = descriptor_seen t (seen \<or> t' = t) es"
| "descriptor_seen t seen (_ # es) = descriptor_seen t seen es"

fun descriptor_once :: "string \<Rightarrow> bool \<Rightarrow> event list \<Rightarrow> bool" where
  "descriptor_once t seen [] = True"
| "descriptor_once t seen (MqttConnect _ _ ok # es) = descriptor_once t (seen \<and> \<not> ok) es"
| "descriptor_once t seen (MqttPublish t' _ _ # es) =
     (if t' = t then \<not> seen \<and> descriptor_once t True es else descriptor_once t seen es)"
| "descriptor_once t seen (_ # es) = descriptor_once t seen es"

text \<open>
  \<open>tame\<close>: an event that is no successful connection and no publication on a topic other
  than the status and the availability topic. \<open>calm_step\<close>: a step that keeps the topics
  and puts only tame events on the wire.
\<close>

fun tame :: "string \<Rightarrow> string \<Rightarrow> event \<Rightarrow> bool" where
  "tame st av (MqttPublish t _ _) = (t = st \<or> t = av)"
| "tame st av (MqttConnect _ _ ok) = (\<not> ok)"
| "tame st av _ = True"

definition topics :: "state \<Rightarrow> string \<times> string \<times> string" where
  "topics s = (mqttTopicCmd s, mqttTopicStatus s, mqttTopicAvail s)"

definition calm_step :: "state \<Rightarrow> state \<Rightarrow> bool" where
  "calm_step s s' =
     (topics s' = topics s
      \<and> (\<exists>w. wire (trace s') = wire (trace s) @ w
              \<and> list_all (tame (mqttTopicStatus s) (mqttTopicAvail s)) w))"

text \<open>
  \<open>pub_step s s' msgs\<close>: a step that tries to publish \<open>msgs\<close> one after the other and puts
  nothing else on the wire. The client is connected afterwards exactly when all of them
  went out; otherwise a proper initial part of them did, and none when the client was not
  connected to begin with.
\<close>

fun pub_ev :: "string \<times> string \<times> bool \<Rightarrow> event" where
  "pub_ev (t, p, r) = MqttPublish t p r"

definition pub_step :: "state \<Rightarrow> state \<Rightarrow> (string \<times> string \<times> bool) list \<Rightarrow> bool" where
  "pub_step s s' msgs =
     (topics s' = topics s
      \<and> (session s' \<longrightarrow> session s \<and> wire (trace s') = wire (trace s) @ map pub_ev msgs)
      \<and> (\<not> session s' \<longrightarrow>
           (\<exists>k<length msgs. wire (trace s') = wire (trace s) @ map pub_ev (take k msgs)))
      \<and> (\<not> session s \<longrightarrow> wire (trace s') = wire (trace s)))"

text \<open>
  The messages of one discovery run, in the order of \<^verbatim>\<open>loop()\<close>: the discovery set, then
  the status messages \<open>discovery:published\<close>, the reset reason and \<open>ready\<close>.
\<close>

definition discovery_run :: "platform \<Rightarrow> state \<Rightarrow> (string \<times> string \<times> bool) list" where
  "discovery_run hw s =
     discovery_set s
     @ map (status_msg s)
         [''discovery:published'',
          ''boot:reset_reason:'' @ resetReasonToString (hw_reset_reason hw), ''ready'']"

text \<open>
  \<open>descriptor_inv\<close>: no descriptor of the discovery set has been published twice in one
  session, and one that has been published in the current session has the flag set.
\<close>

definition descriptor_inv :: "state \<Rightarrow> bool" where
  "descriptor_inv s =
     ((\<forall>t \<in> set discovery_topics.
         descriptor_once t False (trace s)
         \<and> (descriptor_seen t False (trace s) \<longrightarrow> discoveryPublished s))
      \<and> mqttTopicStatus s \<notin> set discovery_topics
      \<and> mqttTopicAvail s \<notin> set discovery_topics)"

text \<open>
  \<open>hw_drop\<close>: as \<open>hw_online\<close>, but the socket under the client is closed from the twelfth
  query on.
\<close>

definition hw_drop :: platform where
  "hw_drop = hw_online\<lparr> hw_sock := (\<lambda>n. n < 11) \<rparr>"

section \<open>Facts about the transmitter and the restore macro\<close>

lemmas prim_defs = emit_def delay_def yield_def Serial_println_def irsend_sendNEC_def millis_def

lemma ir_frames_simps [simp]:
  "ir_frames [] = []" "ir_frames (e # es) = ir_of e @ ir_frames es"
  "ir_frames (xs @ ys) = ir_frames xs @ ir_frames ys"
  by (simp_all add: ir_frames_def)

lemma published_simps [simp]:
  "published [] = []" "published (e # es) = pub_of e @ published es"
  "published (xs @ ys) = published xs @ published ys"
  by (simp_all add: published_def)

lemma calls_simps [simp]:
  "calls [] = []" "calls (e # es) = (if is_pause e then calls es else e # calls es)"
  "calls (xs @ ys) = calls xs @ calls ys"
  by (simp_all add: calls_def)

lemma local_calls_simps [simp]:
  "local_calls [] = []"
  "local_calls (e # es) = (if is_pause e \<or> is_publish e then local_calls es else e # local_calls es)"
  "local_calls (xs @ ys) = local_calls xs @ local_calls ys"
  by (simp_all add: local_calls_def)

lemma publishStatus_eq:
  "publishStatus hw msg retain s =
     (if session s \<and> hw_sock hw (tick s)
      then (if hw_sock hw (Suc (tick s))
            then s\<lparr>session := True, tick := Suc (Suc (tick s)),
                   trace := trace s @ [MqttPublish (mqttTopicStatus s) msg retain]\<rparr>
            else s\<lparr>session := False, tick := Suc (Suc (tick s))\<rparr>)
      else s\<lparr>session := False, tick := Suc (tick s)\<rparr>)"
  by (simp add: publishStatus_def mqtt_publish_def mqtt_connected_def emit_def Let_def)

lemma sendNEC_eq:
  "sendNEC code s = s\<lparr>clock := clock s + 50,
      trace := trace s @ [IrSendNEC code 32, Delay 50, IrSendNEC code 32, Yield]\<rparr>"
  by (simp add: sendNEC_def prim_defs Let_def)

lemma globals_publishStatus [simp]: "globals (publishStatus hw msg retain s) = globals s"
  by (simp add: publishStatus_eq globals_def)

lemma session_publishStatus_on:
  "session s \<Longrightarrow> \<forall>n. hw_sock hw n \<Longrightarrow> session (publishStatus hw msg retain s)"
  by (simp add: publishStatus_eq)

lemma trace_publishStatus_on:
  "session s \<Longrightarrow> \<forall>n. hw_sock hw n \<Longrightarrow>
   trace (publishStatus hw msg retain s) = trace s @ [MqttPublish (mqttTopicStatus s) msg retain]"
  by (simp add: publishStatus_eq)

lemma publishStatus_off:
  "\<not> session s \<Longrightarrow> publishStatus hw msg retain s = s\<lparr>session := False, tick := Suc (tick s)\<rparr>"
  by (simp add: publishStatus_eq)

lemma local_publishStatus [simp]:
  "local_calls (trace (publishStatus hw msg retain s)) = local_calls (trace s)"
  by (simp add: publishStatus_eq)

lemma sendCmd_trace:
  "trace (sendCmd cfg hw code tag s) =
     trace s @ [IrSendNEC code 32, Delay 50, IrSendNEC code 32, Yield, Delay (ucast (IR_GAP_MS cfg))]
       @ (if session s \<and> hw_sock hw (tick s) \<and> hw_sock hw (Suc (tick s))
          then [MqttPublish (mqttTopicStatus s) (''sent:'' @ tag) True] else [])
       @ [SerialLine (''IR sent: '' @ tag), Yield, Delay 1]"
  by (simp add: sendCmd_def sendNEC_eq publishStatus_eq prim_defs Let_def)

lemma globals_sendCmd [simp]: "globals (sendCmd cfg hw code tag s) = globals s"
  by (simp add: sendCmd_def sendNEC_eq publishStatus_eq prim_defs Let_def globals_def)

lemma session_sendCmd:
  "session (sendCmd cfg hw code tag s) = (session s \<and> hw_sock hw (tick s) \<and> hw_sock hw (Suc (tick s)))"
  by (auto simp add: sendCmd_def sendNEC_eq publishStatus_eq prim_defs Let_def)

lemma local_sendCmd [simp]:
  "local_calls (trace (sendCmd cfg hw code tag s)) = local_calls (trace s) @ cmd_script t False code tag"
  by (simp add: sendCmd_trace cmd_script_def)

lemma calls_sendCmd_on:
  "session s \<Longrightarrow> \<forall>n. hw_sock hw n \<Longrightarrow>
   calls (trace (sendCmd cfg hw code tag s)) = calls (trace s) @ cmd_script (mqttTopicStatus s) True code tag"
  by (simp add: sendCmd_trace cmd_script_def)

lemma calls_sendCmd_off:
  "\<not> session s \<Longrightarrow>
   calls (trace (sendCmd cfg hw code tag s)) = calls (trace s) @ cmd_script t False code tag"
  by (simp add: sendCmd_trace cmd_script_def)


lemma pauses_vanish [simp]:
  "calls (concat (replicate k [Delay d, Yield])) = []"
  "local_calls (concat (replicate k [Delay d, Yield])) = []"
  by (induction k) simp_all

lemma waitLoop_shape:
  "\<exists>k. waitLoop start ms s =
         s\<lparr>clock := clock s + 5 * of_nat k, trace := trace s @ concat (replicate k [Delay 5, Yield])\<rparr>"
proof (induction start ms s rule: waitLoop.induct)
  case (1 start ms s)
  show ?case
  proof (cases "millis s - start < ms")
    case True
    from 1[OF True] obtain k where
      k: "waitLoop start ms (yield (delay 5 s)) =
            (yield (delay 5 s))\<lparr>clock := clock (yield (delay 5 s)) + 5 * of_nat k,
               trace := trace (yield (delay 5 s)) @ concat (replicate k [Delay 5, Yield])\<rparr>"
      by blast
    have "waitLoop start ms s = waitLoop start ms (yield (delay 5 s))"
      using True by (subst waitLoop.simps) simp
    also have "\<dots> = s\<lparr>clock := clock s + 5 * of_nat (Suc k),
                 trace := trace s @ concat (replicate (Suc k) [Delay 5, Yield])\<rparr>"
      unfolding k by (simp add: prim_defs algebra_simps)
    finally show ?thesis by blast
  next
    case False
    then have "waitLoop start ms s = s" by (subst waitLoop.simps) simp
    then have "waitLoop start ms s =
        s\<lparr>clock := clock s + 5 * of_nat (0::nat), trace := trace s @ concat (replicate 0 [Delay 5, Yield])\<rparr>"
      by simp
    then show ?thesis by blast
  qed
qed

lemma waitMsWithYield_shape:
  "\<exists>k. waitMsWithYield ms s =
         s\<lparr>clock := clock s + 5 * of_nat k, trace := trace s @ concat (replicate k [Delay 5, Yield])\<rparr>"
  unfolding waitMsWithYield_def Let_def by (rule waitLoop_shape)

lemma waitMsWithYield_frame [simp]:
  "calls (trace (waitMsWithYield ms s)) = calls (trace s)"
  "local_calls (trace (waitMsWithYield ms s)) = local_calls (trace s)"
  "globals (waitMsWithYield ms s) = globals s"
  "session (waitMsWithYield ms s) = session s"
  "tick (waitMsWithYield ms s) = tick s"
proof -
  obtain k where k: "waitMsWithYield ms s =
         s\<lparr>clock := clock s + 5 * of_nat k, trace := trace s @ concat (replicate k [Delay 5, Yield])\<rparr>"
    using waitMsWithYield_shape by blast
  show "calls (trace (waitMsWithYield ms s)) = calls (trace s)" unfolding k by simp
  show "local_calls (trace (waitMsWithYield ms s)) = local_calls (trace s)" unfolding k by simp
  show "globals (waitMsWithYield ms s) = globals s" unfolding k by (simp add: globals_def)
  show "session (waitMsWithYield ms s) = session s" unfolding k by simp
  show "tick (waitMsWithYield ms s) = tick s" unfolding k by simp
qed

text \<open>One round of the for loop.\<close>

lemma round_facts:
  "trace (delay 1 (yield s)) = trace s @ [Yield, Delay 1]"
  "globals (delay 1 (yield s)) = globals s"
  "session (delay 1 (yield s)) = session s"
  "tick (delay 1 (yield s)) = tick s"
  by (simp_all add: prim_defs globals_def)

lemma rounds_left: "(i::u16) < n \<Longrightarrow> unat n - unat i = Suc (unat n - unat (i + 1))"
  by unat_arith

lemma globals_tempUpLoop [simp]: "globals (tempUpLoop cfg hw i s) = globals s"
proof (induction cfg hw i s rule: tempUpLoop.induct)
  case (1 cfg hw i s)
  show ?case
  proof (cases "i < TEMP_STEPS_TO_45 cfg")
    case True
    then show ?thesis using 1[OF True] by (subst tempUpLoop.simps) (simp add: round_facts)
  next
    case False
    then show ?thesis by (subst tempUpLoop.simps) simp
  qed
qed

lemma local_tempUpLoop:
  "local_calls (trace (tempUpLoop cfg hw i s)) =
     local_calls (trace s)
     @ concat (replicate (unat (TEMP_STEPS_TO_45 cfg) - unat i) (cmd_script t False IR_TEMP_UP ''temp_up''))"
proof (induction cfg hw i s rule: tempUpLoop.induct)
  case (1 cfg hw i s)
  show ?case
  proof (cases "i < TEMP_STEPS_TO_45 cfg")
    case True
    show ?thesis
      using 1[OF True] True
      by (subst tempUpLoop.simps) (simp add: round_facts rounds_left[OF True] local_sendCmd[where t=t])
  next
    case False
    then have "unat (TEMP_STEPS_TO_45 cfg) - unat i = 0" by unat_arith
    with False show ?thesis by (subst tempUpLoop.simps) simp
  qed
qed

lemma on_tempUpLoop:
  "session s \<Longrightarrow> \<forall>n. hw_sock hw n \<Longrightarrow>
   calls (trace (tempUpLoop cfg hw i s)) =
     calls (trace s)
     @ concat (replicate (unat (TEMP_STEPS_TO_45 cfg) - unat i)
                 (cmd_script (mqttTopicStatus s) True IR_TEMP_UP ''temp_up''))
   \<and> session (tempUpLoop cfg hw i s)"
proof (induction cfg hw i s rule: tempUpLoop.induct)
  case (1 cfg hw i s)
  show ?case
  proof (cases "i < TEMP_STEPS_TO_45 cfg")
    case True
    let ?s = "delay 1 (yield (sendCmd cfg hw IR_TEMP_UP ''temp_up'' s))"
    have s': "session ?s" using 1(2,3) by (simp add: round_facts session_sendCmd)
    have topic: "mqttTopicStatus ?s = mqttTopicStatus s"
      using globals_sendCmd[of cfg hw IR_TEMP_UP "''temp_up''" s]
            round_facts(2)[of "sendCmd cfg hw IR_TEMP_UP ''temp_up'' s"]
      by (simp add: globals_def)
    show ?thesis
      using 1(1)[OF True s' 1(3)] True 1(2,3)
      by (subst tempUpLoop.simps, subst (2) tempUpLoop.simps)
         (simp add: round_facts rounds_left[OF True] calls_sendCmd_on topic)
  next
    case False
    then have "unat (TEMP_STEPS_TO_45 cfg) - unat i = 0" by unat_arith
    with False 1(2) show ?thesis by (subst tempUpLoop.simps, subst (2) tempUpLoop.simps) simp
  qed
qed

lemma off_tempUpLoop:
  "\<not> session s \<Longrightarrow>
   calls (trace (tempUpLoop cfg hw i s)) =
     calls (trace s)
     @ concat (replicate (unat (TEMP_STEPS_TO_45 cfg) - unat i) (cmd_script t False IR_TEMP_UP ''temp_up''))
   \<and> \<not> session (tempUpLoop cfg hw i s)"
proof (induction cfg hw i s rule: tempUpLoop.induct)
  case (1 cfg hw i s)
  show ?case
  proof (cases "i < TEMP_STEPS_TO_45 cfg")
    case True
    let ?s = "delay 1 (yield (sendCmd cfg hw IR_TEMP_UP ''temp_up'' s))"
    have s': "\<not> session ?s" using 1(2) by (simp add: round_facts session_sendCmd)
    show ?thesis
      using 1(1)[OF True s'] True 1(2)
      by (subst tempUpLoop.simps, subst (2) tempUpLoop.simps)
         (simp add: round_facts rounds_left[OF True] calls_sendCmd_off[where t=t])
  next
    case False
    then have "unat (TEMP_STEPS_TO_45 cfg) - unat i = 0" by unat_arith
    with False 1(2) show ?thesis by (subst tempUpLoop.simps, subst (2) tempUpLoop.simps) simp
  qed
qed


lemma globals_fields:
  assumes "globals a = globals b"
  shows "mqttTopicCmd a = mqttTopicCmd b" "mqttTopicStatus a = mqttTopicStatus b"
    "mqttTopicAvail a = mqttTopicAvail b" "lastBtnState a = lastBtnState b"
    "lastBtnChangeMs a = lastBtnChangeMs b" "lastWifiAttemptMs a = lastWifiAttemptMs b"
    "lastMqttAttemptMs a = lastMqttAttemptMs b" "discoveryPublished a = discoveryPublished b"
    "otaStarted a = otaStarted b" "bootRestoreScheduled a = bootRestoreScheduled b"
    "bootRestoreAtMs a = bootRestoreAtMs b" "tAlive a = tAlive b"
  using assms by (simp_all add: globals_def)

lemma globals_Serial_println [simp]: "globals (Serial_println txt s) = globals s"
  by (simp add: prim_defs globals_def)

lemma trace_Serial_println [simp]: "trace (Serial_println txt s) = trace s @ [SerialLine txt]"
  by (simp add: prim_defs)

lemma session_Serial_println [simp]: "session (Serial_println txt s) = session s"
  by (simp add: prim_defs)

lemma tick_Serial_println [simp]: "tick (Serial_println txt s) = tick s"
  by (simp add: prim_defs)

lemma globals_restoreTo45AndOff [simp]:
  "globals (restoreTo45AndOff cfg hw triggerTag preDelayMs s) = globals s"
  by (simp add: restoreTo45AndOff_def Let_def)

lemma local_restoreTo45AndOff:
  "local_calls (trace (restoreTo45AndOff cfg hw triggerTag preDelayMs s)) =
     local_calls (trace s) @ restore_script cfg t False triggerTag"
  by (simp add: restoreTo45AndOff_def Let_def restore_script_def
        local_sendCmd[where t=t] local_tempUpLoop[where t=t])

lemma on_sendCmd:
  assumes "session s" "\<forall>n. hw_sock hw n"
  shows "calls (trace (sendCmd cfg hw code tag s)) =
           calls (trace s) @ cmd_script (mqttTopicStatus s) True code tag"
    and "session (sendCmd cfg hw code tag s)"
    and "mqttTopicStatus (sendCmd cfg hw code tag s) = mqttTopicStatus s"
  using assms by (simp_all add: calls_sendCmd_on session_sendCmd globals_fields(2)[OF globals_sendCmd])

lemma on_publishStatus:
  assumes "session s" "\<forall>n. hw_sock hw n"
  shows "calls (trace (publishStatus hw msg retain s)) =
           calls (trace s) @ [MqttPublish (mqttTopicStatus s) msg retain]"
    and "session (publishStatus hw msg retain s)"
    and "mqttTopicStatus (publishStatus hw msg retain s) = mqttTopicStatus s"
  using assms by (simp_all add: publishStatus_eq)

lemma on_restoreTo45AndOff:
  assumes on: "session s" "\<forall>n. hw_sock hw n"
  shows "calls (trace (restoreTo45AndOff cfg hw triggerTag preDelayMs s)) =
           calls (trace s) @ restore_script cfg (mqttTopicStatus s) True triggerTag
         \<and> session (restoreTo45AndOff cfg hw triggerTag preDelayMs s)"
proof -
  define s1 where "s1 = publishStatus hw (''restore:start:'' @ triggerTag) True s"
  define s2 where "s2 = Serial_println (''restore:start:'' @ triggerTag) s1"
  define s3 where "s3 = (if preDelayMs > 0 then waitMsWithYield preDelayMs s2 else s2)"
  define s4 where "s4 = sendCmd cfg hw IR_POWER_TOGGLE ''power_toggle_on'' s3"
  define s5 where "s5 = sendCmd cfg hw IR_TEMP_MODE ''temp_mode'' s4"
  define s6 where "s6 = tempUpLoop cfg hw 0 s5"
  define s7 where "s7 = sendCmd cfg hw IR_POWER_TOGGLE ''power_toggle_off'' s6"
  define s8 where "s8 = publishStatus hw (''restore:done:'' @ triggerTag) True s7"
  let ?t = "mqttTopicStatus s"
  have r: "restoreTo45AndOff cfg hw triggerTag preDelayMs s
             = Serial_println (''restore:done:'' @ triggerTag) s8"
    by (simp add: restoreTo45AndOff_def Let_def s1_def s2_def s3_def s4_def s5_def s6_def
          s7_def s8_def)
  have 1: "calls (trace s1) = calls (trace s) @ [MqttPublish ?t (''restore:start:'' @ triggerTag) True]"
      "session s1" "mqttTopicStatus s1 = ?t"
    unfolding s1_def using on_publishStatus[OF on] by simp_all
  have 3: "calls (trace s3) = calls (trace s1) @ [SerialLine (''restore:start:'' @ triggerTag)]"
      "session s3" "mqttTopicStatus s3 = ?t"
    using 1 by (simp_all add: s3_def s2_def globals_fields(2)[OF waitMsWithYield_frame(3)] prim_defs)
  have 4: "calls (trace s4) = calls (trace s3) @ cmd_script ?t True IR_POWER_TOGGLE ''power_toggle_on''"
      "session s4" "mqttTopicStatus s4 = ?t"
    unfolding s4_def using on_sendCmd[OF 3(2) on(2)] 3(3) by simp_all
  have 5: "calls (trace s5) = calls (trace s4) @ cmd_script ?t True IR_TEMP_MODE ''temp_mode''"
      "session s5" "mqttTopicStatus s5 = ?t"
    unfolding s5_def using on_sendCmd[OF 4(2) on(2)] 4(3) by simp_all
  have 6: "calls (trace s6) = calls (trace s5)
              @ concat (replicate (unat (TEMP_STEPS_TO_45 cfg)) (cmd_script ?t True IR_TEMP_UP ''temp_up''))"
      "session s6" "mqttTopicStatus s6 = ?t"
    unfolding s6_def using on_tempUpLoop[OF 5(2) on(2), of cfg 0] 5(3)
    by (simp_all add: globals_fields(2)[OF globals_tempUpLoop])
  have 7: "calls (trace s7) = calls (trace s6) @ cmd_script ?t True IR_POWER_TOGGLE ''power_toggle_off''"
      "session s7" "mqttTopicStatus s7 = ?t"
    unfolding s7_def using on_sendCmd[OF 6(2) on(2)] 6(3) by simp_all
  have 8: "calls (trace s8) = calls (trace s7) @ [MqttPublish ?t (''restore:done:'' @ triggerTag) True]"
      "session s8"
    unfolding s8_def using on_publishStatus[OF 7(2) on(2)] 7(3) by simp_all
  show ?thesis
    unfolding r by (simp add: 1 3 4 5 6 7 8 restore_script_def)
qed

lemma off_sendCmd:
  assumes "\<not> session s"
  shows "calls (trace (sendCmd cfg hw code tag s)) = calls (trace s) @ cmd_script t False code tag"
    and "\<not> session (sendCmd cfg hw code tag s)"
  using assms by (simp_all add: calls_sendCmd_off[where t=t] session_sendCmd)

lemma off_publishStatus:
  assumes "\<not> session s"
  shows "trace (publishStatus hw msg retain s) = trace s"
    and "\<not> session (publishStatus hw msg retain s)"
  using assms by (simp_all add: publishStatus_eq)

lemma off_restoreTo45AndOff:
  assumes off: "\<not> session s"
  shows "calls (trace (restoreTo45AndOff cfg hw triggerTag preDelayMs s)) =
           calls (trace s) @ restore_script cfg t False triggerTag
         \<and> \<not> session (restoreTo45AndOff cfg hw triggerTag preDelayMs s)"
proof -
  define s1 where "s1 = publishStatus hw (''restore:start:'' @ triggerTag) True s"
  define s2 where "s2 = Serial_println (''restore:start:'' @ triggerTag) s1"
  define s3 where "s3 = (if preDelayMs > 0 then waitMsWithYield preDelayMs s2 else s2)"
  define s4 where "s4 = sendCmd cfg hw IR_POWER_TOGGLE ''power_toggle_on'' s3"
  define s5 where "s5 = sendCmd cfg hw IR_TEMP_MODE ''temp_mode'' s4"
  define s6 where "s6 = tempUpLoop cfg hw 0 s5"
  define s7 where "s7 = sendCmd cfg hw IR_POWER_TOGGLE ''power_toggle_off'' s6"
  define s8 where "s8 = publishStatus hw (''restore:done:'' @ triggerTag) True s7"
  have r: "restoreTo45AndOff cfg hw triggerTag preDelayMs s
             = Serial_println (''restore:done:'' @ triggerTag) s8"
    by (simp add: restoreTo45AndOff_def Let_def s1_def s2_def s3_def s4_def s5_def s6_def
          s7_def s8_def)
  have 1: "trace s1 = trace s" "\<not> session s1"
    unfolding s1_def using off_publishStatus[OF off] by simp_all
  have 3: "calls (trace s3) = calls (trace s1) @ [SerialLine (''restore:start:'' @ triggerTag)]"
      "\<not> session s3"
    using 1 by (simp_all add: s3_def s2_def)
  have 4: "calls (trace s4) = calls (trace s3) @ cmd_script t False IR_POWER_TOGGLE ''power_toggle_on''"
      "\<not> session s4"
    unfolding s4_def using off_sendCmd[OF 3(2)] by simp_all
  have 5: "calls (trace s5) = calls (trace s4) @ cmd_script t False IR_TEMP_MODE ''temp_mode''"
      "\<not> session s5"
    unfolding s5_def using off_sendCmd[OF 4(2)] by simp_all
  have 6: "calls (trace s6) = calls (trace s5)
              @ concat (replicate (unat (TEMP_STEPS_TO_45 cfg)) (cmd_script t False IR_TEMP_UP ''temp_up''))"
      "\<not> session s6"
    unfolding s6_def using off_tempUpLoop[OF 5(2), of cfg hw 0 t] by simp_all
  have 7: "calls (trace s7) = calls (trace s6) @ cmd_script t False IR_POWER_TOGGLE ''power_toggle_off''"
      "\<not> session s7"
    unfolding s7_def using off_sendCmd[OF 6(2)] by simp_all
  have 8: "trace s8 = trace s7" "\<not> session s8"
    unfolding s8_def using off_publishStatus[OF 7(2)] by simp_all
  show ?thesis
    unfolding r by (simp add: 1 3 4 5 6 7 8 restore_script_def)
qed

lemma ir_frames_local: "ir_frames (local_calls tr) = ir_frames tr"
  by (induction tr) (auto elim: is_pause.elims is_publish.elims)

lemma ir_frames_calls: "ir_frames (calls tr) = ir_frames tr"
  by (induction tr) (auto elim: is_pause.elims)

lemma published_calls: "published (calls tr) = published tr"
  by (induction tr) (auto elim: is_pause.elims)

lemma ir_frames_cmd_script [simp]: "ir_frames (cmd_script t up code tag) = transmission code"
  by (simp add: cmd_script_def transmission_def)

lemma published_cmd_script [simp]:
  "published (cmd_script t up code tag) = (if up then [(t, ''sent:'' @ tag, True)] else [])"
  by (simp add: cmd_script_def)

lemma ir_frames_concat_replicate [simp]:
  "ir_frames (concat (replicate n xs)) = concat (replicate n (ir_frames xs))"
  by (induction n) simp_all

lemma published_concat_replicate [simp]:
  "published (concat (replicate n xs)) = concat (replicate n (published xs))"
  by (induction n) simp_all

lemma concat_replicate_single [simp]: "concat (replicate n [x]) = replicate n x"
  by (induction n) simp_all

lemma ir_frames_restore_script:
  "ir_frames (restore_script cfg t up tag) = concat (map transmission (restore_codes cfg))"
  by (simp add: restore_script_def restore_codes_def)

lemma published_restore_script_on:
  "published (restore_script cfg t True tag) =
     map (\<lambda>p. (t, p, True))
       ([''restore:start:'' @ tag, ''sent:power_toggle_on'', ''sent:temp_mode'']
        @ replicate (unat (TEMP_STEPS_TO_45 cfg)) ''sent:temp_up''
        @ [''sent:power_toggle_off'', ''restore:done:'' @ tag])"
  by (simp add: restore_script_def)

lemma published_restore_script_off: "published (restore_script cfg t False tag) = []"
  by (simp add: restore_script_def)

lemma ir_frames_restoreTo45AndOff:
  "ir_frames (trace (restoreTo45AndOff cfg hw tag pre s)) =
     ir_frames (trace s) @ concat (map transmission (restore_codes cfg))"
proof -
  have "ir_frames (trace (restoreTo45AndOff cfg hw tag pre s))
          = ir_frames (local_calls (trace (restoreTo45AndOff cfg hw tag pre s)))"
    by (simp only: ir_frames_local)
  also have "\<dots> = ir_frames (local_calls (trace s) @ restore_script cfg [] False tag)"
    by (simp only: local_restoreTo45AndOff[where t="[]"])
  also have "\<dots> = ir_frames (trace s) @ concat (map transmission (restore_codes cfg))"
    by (simp add: ir_frames_local ir_frames_restore_script)
  finally show ?thesis .
qed

section \<open>The claims\<close>

lemma waitLoop_rounds:
  "\<exists>k. waitLoop start ms s =
         s\<lparr>clock := clock s + 5 * of_nat k, trace := trace s @ concat (replicate k [Delay 5, Yield])\<rparr>
       \<and> \<not> (clock s + 5 * of_nat k - start < ms)
       \<and> (\<forall>j<k. clock s + 5 * of_nat j - start < ms)"
proof (induction start ms s rule: waitLoop.induct)
  case (1 start ms s)
  show ?case
  proof (cases "millis s - start < ms")
    case True
    let ?s = "yield (delay 5 s)"
    from 1[OF True] obtain k where
      k: "waitLoop start ms ?s =
            ?s\<lparr>clock := clock ?s + 5 * of_nat k,
               trace := trace ?s @ concat (replicate k [Delay 5, Yield])\<rparr>"
      and x: "\<not> (clock ?s + 5 * of_nat k - start < ms)"
      and y: "\<forall>j<k. clock ?s + 5 * of_nat j - start < ms"
      by blast
    have "waitLoop start ms s = waitLoop start ms ?s"
      using True by (subst waitLoop.simps) simp
    also have "\<dots> = s\<lparr>clock := clock s + 5 * of_nat (Suc k),
                 trace := trace s @ concat (replicate (Suc k) [Delay 5, Yield])\<rparr>"
      unfolding k by (simp add: prim_defs algebra_simps)
    finally have a: "waitLoop start ms s = s\<lparr>clock := clock s + 5 * of_nat (Suc k),
                 trace := trace s @ concat (replicate (Suc k) [Delay 5, Yield])\<rparr>" .
    have b: "\<not> (clock s + 5 * of_nat (Suc k) - start < ms)"
      using x by (simp add: prim_defs algebra_simps)
    have c: "\<forall>j<Suc k. clock s + 5 * of_nat j - start < ms"
    proof (intro allI impI)
      fix j assume j: "j < Suc k"
      show "clock s + 5 * of_nat j - start < ms"
      proof (cases j)
        case 0
        then show ?thesis using True by (simp add: millis_def)
      next
        case (Suc i)
        then have "i < k" using j by simp
        then have "clock ?s + 5 * of_nat i - start < ms" using y by blast
        then show ?thesis unfolding Suc by (simp add: prim_defs algebra_simps)
      qed
    qed
    from a b c show ?thesis by blast
  next
    case False
    then have "waitLoop start ms s = s" by (subst waitLoop.simps) simp
    then have "waitLoop start ms s =
        s\<lparr>clock := clock s + 5 * of_nat (0::nat), trace := trace s @ concat (replicate 0 [Delay 5, Yield])\<rparr>"
      by simp
    moreover have "\<not> (clock s + 5 * of_nat (0::nat) - start < ms)"
      using False by (simp add: millis_def)
    moreover have "\<forall>j<(0::nat). clock s + 5 * of_nat j - start < ms" by simp
    ultimately show ?thesis by blast
  qed
qed

lemma waitMsWithYield_rounds:
  "\<exists>k. waitMsWithYield ms s =
         s\<lparr>clock := clock s + 5 * of_nat k, trace := trace s @ concat (replicate k [Delay 5, Yield])\<rparr>
       \<and> \<not> ((5::u32) * of_nat k < ms) \<and> (\<forall>j<k. (5::u32) * of_nat j < ms)"
proof -
  obtain k where k: "waitLoop (clock s) ms s =
         s\<lparr>clock := clock s + 5 * of_nat k, trace := trace s @ concat (replicate k [Delay 5, Yield])\<rparr>"
      "\<not> (clock s + 5 * of_nat k - clock s < ms)"
      "\<forall>j<k. clock s + 5 * of_nat j - clock s < ms"
    using waitLoop_rounds[of "clock s" ms s] by blast
  show ?thesis
    unfolding waitMsWithYield_def Let_def millis_def using k by auto
qed

lemma tempUpLoop_extends: "\<exists>xs. trace (tempUpLoop cfg hw i s) = trace s @ xs"
proof (induction cfg hw i s rule: tempUpLoop.induct)
  case (1 cfg hw i s)
  show ?case
  proof (cases "i < TEMP_STEPS_TO_45 cfg")
    case True
    from 1[OF True] obtain xs where
      "trace (tempUpLoop cfg hw (i + 1) (delay 1 (yield (sendCmd cfg hw IR_TEMP_UP ''temp_up'' s))))
         = trace (delay 1 (yield (sendCmd cfg hw IR_TEMP_UP ''temp_up'' s))) @ xs"
      by blast
    then show ?thesis
      using True by (subst tempUpLoop.simps) (simp add: round_facts sendCmd_trace)
  next
    case False
    then show ?thesis by (subst tempUpLoop.simps) simp
  qed
qed

lemma restore_trace_shape:
  "\<exists>k rest.
     trace (restoreTo45AndOff cfg hw tag pre s) =
       trace (publishStatus hw (''restore:start:'' @ tag) True s)
       @ [SerialLine (''restore:start:'' @ tag)]
       @ concat (replicate k [Delay 5, Yield])
       @ rest
     \<and> \<not> ((5::u32) * of_nat k < pre) \<and> (\<forall>j<k. (5::u32) * of_nat j < pre)
     \<and> local_calls rest =
         cmd_script [] False IR_POWER_TOGGLE ''power_toggle_on''
         @ cmd_script [] False IR_TEMP_MODE ''temp_mode''
         @ concat (replicate (unat (TEMP_STEPS_TO_45 cfg)) (cmd_script [] False IR_TEMP_UP ''temp_up''))
         @ cmd_script [] False IR_POWER_TOGGLE ''power_toggle_off''
         @ [SerialLine (''restore:done:'' @ tag)]"
proof -
  define s1 where "s1 = publishStatus hw (''restore:start:'' @ tag) True s"
  define s2 where "s2 = Serial_println (''restore:start:'' @ tag) s1"
  define s3 where "s3 = (if pre > 0 then waitMsWithYield pre s2 else s2)"
  define s4 where "s4 = sendCmd cfg hw IR_POWER_TOGGLE ''power_toggle_on'' s3"
  define s5 where "s5 = sendCmd cfg hw IR_TEMP_MODE ''temp_mode'' s4"
  define s6 where "s6 = tempUpLoop cfg hw 0 s5"
  define s7 where "s7 = sendCmd cfg hw IR_POWER_TOGGLE ''power_toggle_off'' s6"
  define s8 where "s8 = publishStatus hw (''restore:done:'' @ tag) True s7"
  have r: "restoreTo45AndOff cfg hw tag pre s = Serial_println (''restore:done:'' @ tag) s8"
    by (simp add: restoreTo45AndOff_def Let_def s1_def s2_def s3_def s4_def s5_def s6_def
          s7_def s8_def)
  have "\<exists>k. trace s3 = trace s2 @ concat (replicate k [Delay 5, Yield])
            \<and> \<not> ((5::u32) * of_nat k < pre) \<and> (\<forall>j<k. (5::u32) * of_nat j < pre)"
  proof (cases "pre > 0")
    case True
    obtain k where "waitMsWithYield pre s2 =
         s2\<lparr>clock := clock s2 + 5 * of_nat k, trace := trace s2 @ concat (replicate k [Delay 5, Yield])\<rparr>"
        "\<not> ((5::u32) * of_nat k < pre)" "\<forall>j<k. (5::u32) * of_nat j < pre"
      using waitMsWithYield_rounds by blast
    then have "trace s3 = trace s2 @ concat (replicate k [Delay 5, Yield])
            \<and> \<not> ((5::u32) * of_nat k < pre) \<and> (\<forall>j<k. (5::u32) * of_nat j < pre)"
      using True by (simp add: s3_def word_greater_zero_iff)
    then show ?thesis by blast
  next
    case False
    then have "pre = 0" by (simp add: word_greater_zero_iff)
    then have "trace s3 = trace s2 @ concat (replicate 0 [Delay 5, Yield])
            \<and> \<not> ((5::u32) * of_nat (0::nat) < pre) \<and> (\<forall>j<(0::nat). (5::u32) * of_nat j < pre)"
      by (simp add: s3_def)
    then show ?thesis by blast
  qed
  then obtain k where k: "trace s3 = trace s2 @ concat (replicate k [Delay 5, Yield])"
      "\<not> ((5::u32) * of_nat k < pre)" "\<forall>j<k. (5::u32) * of_nat j < pre"
    by blast
  obtain x4 where x4: "trace s4 = trace s3 @ x4" by (simp add: s4_def sendCmd_trace)
  obtain x5 where x5: "trace s5 = trace s4 @ x5" by (simp add: s5_def sendCmd_trace)
  obtain x6 where x6: "trace s6 = trace s5 @ x6" using tempUpLoop_extends s6_def by blast
  obtain x7 where x7: "trace s7 = trace s6 @ x7" by (simp add: s7_def sendCmd_trace)
  have "\<exists>x8. trace s8 = trace s7 @ x8" by (simp add: s8_def publishStatus_eq)
  then obtain x8 where x8: "trace s8 = trace s7 @ x8" by blast
  define rest where "rest = x4 @ x5 @ x6 @ x7 @ x8 @ [SerialLine (''restore:done:'' @ tag)]"
  have sh: "trace (restoreTo45AndOff cfg hw tag pre s) =
       trace s1 @ [SerialLine (''restore:start:'' @ tag)] @ concat (replicate k [Delay 5, Yield]) @ rest"
    unfolding r by (simp add: x8 x7 x6 x5 x4 k(1) s2_def rest_def)
  have "local_calls (trace (restoreTo45AndOff cfg hw tag pre s)) =
          local_calls (trace s) @ [SerialLine (''restore:start:'' @ tag)] @ local_calls rest"
    unfolding sh by (simp add: s1_def)
  then have "local_calls rest =
         cmd_script [] False IR_POWER_TOGGLE ''power_toggle_on''
         @ cmd_script [] False IR_TEMP_MODE ''temp_mode''
         @ concat (replicate (unat (TEMP_STEPS_TO_45 cfg)) (cmd_script [] False IR_TEMP_UP ''temp_up''))
         @ cmd_script [] False IR_POWER_TOGGLE ''power_toggle_off''
         @ [SerialLine (''restore:done:'' @ tag)]"
    unfolding local_restoreTo45AndOff[where t="[]"] by (simp add: restore_script_def)
  then show ?thesis
    using sh k(2,3) unfolding s1_def by blast
qed

text \<open>
  Claim C1. One run of the restore macro, for every trigger tag, pre-delay and configured
  number of steps \<open>N\<close>: the transmitter receives the power-toggle code, the temp-mode code,
  \<open>N\<close> times the temp-up code and the power-toggle code, in this order, each as the two
  frames of one transmission, whatever the state of the session; so the frames do not
  depend on the tag or the pre-delay. Pauses and publications apart, the trace grows by
  the script of the macro. The trace itself grows by the status \<open>restore:start:<tag>\<close> (as
  \<^verbatim>\<open>publishStatus\<close> leaves it) and its log line, then the pre-delay, then the four steps and
  the line \<open>restore:done:<tag>\<close>; the pre-delay is \<open>k\<close> pauses of 5 ms, where \<open>k\<close> is the first
  count with \<open>5 * k\<close> not below the pre-delay, so none when the pre-delay is 0. While the
  session lasts, the whole trace, pauses apart, grows by the script with its publications:
  \<open>restore:start:<tag>\<close> first, one \<open>sent:<tag>\<close> after each transmission,
  \<open>restore:done:<tag>\<close> last.
\<close>

theorem restore_macro_sequence:
  "ir_frames (trace (restoreTo45AndOff cfg hw tag pre s)) =
     ir_frames (trace s)
     @ concat (map transmission
         ([IR_POWER_TOGGLE] @ [IR_TEMP_MODE]
          @ replicate (unat (TEMP_STEPS_TO_45 cfg)) IR_TEMP_UP @ [IR_POWER_TOGGLE]))
   \<and> ir_frames (trace (restoreTo45AndOff cfg hw tag' pre' s)) =
       ir_frames (trace (restoreTo45AndOff cfg hw tag pre s))
   \<and> local_calls (trace (restoreTo45AndOff cfg hw tag pre s)) =
       local_calls (trace s) @ restore_script cfg [] False tag
   \<and> (\<exists>k rest.
        trace (restoreTo45AndOff cfg hw tag pre s) =
          trace (publishStatus hw (''restore:start:'' @ tag) True s)
          @ [SerialLine (''restore:start:'' @ tag)]
          @ concat (replicate k [Delay 5, Yield])
          @ rest
        \<and> \<not> ((5::u32) * of_nat k < pre) \<and> (\<forall>j<k. (5::u32) * of_nat j < pre)
        \<and> local_calls rest =
            cmd_script [] False IR_POWER_TOGGLE ''power_toggle_on''
            @ cmd_script [] False IR_TEMP_MODE ''temp_mode''
            @ concat (replicate (unat (TEMP_STEPS_TO_45 cfg)) (cmd_script [] False IR_TEMP_UP ''temp_up''))
            @ cmd_script [] False IR_POWER_TOGGLE ''power_toggle_off''
            @ [SerialLine (''restore:done:'' @ tag)])
   \<and> (session s \<and> (\<forall>n. hw_sock hw n) \<longrightarrow>
        calls (trace (restoreTo45AndOff cfg hw tag pre s)) =
          calls (trace s) @ restore_script cfg (mqttTopicStatus s) True tag
        \<and> published (trace (restoreTo45AndOff cfg hw tag pre s)) =
          published (trace s)
          @ map (status_msg s)
              ([''restore:start:'' @ tag, ''sent:power_toggle_on'', ''sent:temp_mode'']
               @ replicate (unat (TEMP_STEPS_TO_45 cfg)) ''sent:temp_up''
               @ [''sent:power_toggle_off'', ''restore:done:'' @ tag]))"
proof (intro conjI impI)
  show "ir_frames (trace (restoreTo45AndOff cfg hw tag pre s)) =
     ir_frames (trace s)
     @ concat (map transmission
         ([IR_POWER_TOGGLE] @ [IR_TEMP_MODE]
          @ replicate (unat (TEMP_STEPS_TO_45 cfg)) IR_TEMP_UP @ [IR_POWER_TOGGLE]))"
    using ir_frames_restoreTo45AndOff[of cfg hw tag pre s] by (simp only: restore_codes_def)
  show "ir_frames (trace (restoreTo45AndOff cfg hw tag' pre' s)) =
       ir_frames (trace (restoreTo45AndOff cfg hw tag pre s))"
    by (simp only: ir_frames_restoreTo45AndOff)
  show "local_calls (trace (restoreTo45AndOff cfg hw tag pre s)) =
       local_calls (trace s) @ restore_script cfg [] False tag"
    by (rule local_restoreTo45AndOff)
  show "\<exists>k rest.
        trace (restoreTo45AndOff cfg hw tag pre s) =
          trace (publishStatus hw (''restore:start:'' @ tag) True s)
          @ [SerialLine (''restore:start:'' @ tag)]
          @ concat (replicate k [Delay 5, Yield])
          @ rest
        \<and> \<not> ((5::u32) * of_nat k < pre) \<and> (\<forall>j<k. (5::u32) * of_nat j < pre)
        \<and> local_calls rest =
            cmd_script [] False IR_POWER_TOGGLE ''power_toggle_on''
            @ cmd_script [] False IR_TEMP_MODE ''temp_mode''
            @ concat (replicate (unat (TEMP_STEPS_TO_45 cfg)) (cmd_script [] False IR_TEMP_UP ''temp_up''))
            @ cmd_script [] False IR_POWER_TOGGLE ''power_toggle_off''
            @ [SerialLine (''restore:done:'' @ tag)]"
    by (rule restore_trace_shape)
next
  assume on: "session s \<and> (\<forall>n. hw_sock hw n)"
  then have c: "calls (trace (restoreTo45AndOff cfg hw tag pre s)) =
          calls (trace s) @ restore_script cfg (mqttTopicStatus s) True tag"
    using on_restoreTo45AndOff[of s hw cfg tag pre] by blast
  then show "calls (trace (restoreTo45AndOff cfg hw tag pre s)) =
          calls (trace s) @ restore_script cfg (mqttTopicStatus s) True tag" .
  have "published (trace (restoreTo45AndOff cfg hw tag pre s))
          = published (calls (trace (restoreTo45AndOff cfg hw tag pre s)))"
    by (simp only: published_calls)
  also have "\<dots> = published (trace s) @ published (restore_script cfg (mqttTopicStatus s) True tag)"
    unfolding c by (simp add: published_calls)
  finally show "published (trace (restoreTo45AndOff cfg hw tag pre s)) =
          published (trace s)
          @ map (status_msg s)
              ([''restore:start:'' @ tag, ''sent:power_toggle_on'', ''sent:temp_mode'']
               @ replicate (unat (TEMP_STEPS_TO_45 cfg)) ''sent:temp_up''
               @ [''sent:power_toggle_off'', ''restore:done:'' @ tag])"
    by (simp add: published_restore_script_on status_msg_def)
qed

theorem restore_macro_sequence_witness:
  "session (power_up\<lparr>session := True\<rparr>) \<and> (\<forall>n. hw_sock hw_online n)
   \<and> calls (trace (restoreTo45AndOff config_h hw_online ''button'' 500 (power_up\<lparr>session := True\<rparr>))) =
       calls (trace (power_up\<lparr>session := True\<rparr>))
       @ restore_script config_h (mqttTopicStatus (power_up\<lparr>session := True\<rparr>)) True ''button''"
proof -
  have h: "session (power_up\<lparr>session := True\<rparr>) \<and> (\<forall>n. hw_sock hw_online n)"
    by (simp add: hw_online_def)
  with restore_macro_sequence[of config_h hw_online "''button''" 500 "power_up\<lparr>session := True\<rparr>"]
  show ?thesis by blast
qed

text \<open>
  Claim C9. Every call of the transmitter hands the 32-bit code to the IR sender exactly
  twice, with a pause of 50 ms between the two frames. The labelled variant transmits,
  waits the inter-command gap, then publishes \<open>sent:<tag>\<close> on the status topic, once (the
  publication goes out when the client is connected at that moment), in this order.
\<close>

theorem transmitter_sends_twice:
  "trace (sendNEC code s) = trace s @ [IrSendNEC code 32, Delay 50, IrSendNEC code 32, Yield]
   \<and> ir_frames (trace (sendNEC code s)) = ir_frames (trace s) @ [(code, 32), (code, 32)]
   \<and> trace (sendCmd cfg hw code tag s) =
        trace (sendNEC code s)
        @ [Delay (ucast (IR_GAP_MS cfg))]
        @ (if session s \<and> hw_sock hw (tick s) \<and> hw_sock hw (Suc (tick s))
           then [MqttPublish (mqttTopicStatus s) (''sent:'' @ tag) True] else [])
        @ [SerialLine (''IR sent: '' @ tag), Yield, Delay 1]
   \<and> ir_frames (trace (sendCmd cfg hw code tag s)) = ir_frames (trace s) @ [(code, 32), (code, 32)]"
  by (simp add: sendCmd_trace sendNEC_eq)

lemma bootRestoreScheduled_ensureWiFi [simp]:
  "bootRestoreScheduled (ensureWiFiNonBlocking cfg hw s) = bootRestoreScheduled s"
  by (simp add: ensureWiFiNonBlocking_def wifi_connected_def prim_defs Let_def)

lemma buildMqttTopics_fields [simp]:
  "bootRestoreScheduled (buildMqttTopics cfg s) = bootRestoreScheduled s"
  "bootRestoreAtMs (buildMqttTopics cfg s) = bootRestoreAtMs s"
  "discoveryPublished (buildMqttTopics cfg s) = discoveryPublished s"
  "clock (buildMqttTopics cfg s) = clock s" "session (buildMqttTopics cfg s) = session s"
  "tick (buildMqttTopics cfg s) = tick s" "trace (buildMqttTopics cfg s) = trace s"
  by (simp_all add: buildMqttTopics_def Let_def)

lemma bootRestoreScheduled_setup:
  "bootRestoreScheduled (setup_ino cfg hw s) =
     (shouldRunRestoreOnBoot (hw_reset_reason hw) \<or> bootRestoreScheduled s)"
proof -
  have g: "bootRestoreScheduled (emit e x) = bootRestoreScheduled x"
          "bootRestoreScheduled (delay n x) = bootRestoreScheduled x"
          "bootRestoreScheduled (Serial_println t x) = bootRestoreScheduled x" for e n t x
    by (simp_all add: prim_defs)
  show ?thesis
    unfolding setup_ino_def Let_def by (simp add: g)
qed

text \<open>
  Claim C2. After \<^verbatim>\<open>setup()\<close> the boot trigger is armed if and only if the reset reason is
  power-on or brownout; the decision function accepts these two and rejects every other
  reason of the enumeration.
\<close>

theorem boot_arms_iff_power_loss:
  "bootRestoreScheduled (boot cfg hw) =
     (hw_reset_reason hw = ESP_RST_POWERON \<or> hw_reset_reason hw = ESP_RST_BROWNOUT)
   \<and> shouldRunRestoreOnBoot ESP_RST_POWERON \<and> shouldRunRestoreOnBoot ESP_RST_BROWNOUT
   \<and> list_all (\<lambda>r. \<not> shouldRunRestoreOnBoot r)
        [ESP_RST_UNKNOWN, ESP_RST_EXT, ESP_RST_SW, ESP_RST_PANIC, ESP_RST_INT_WDT,
         ESP_RST_TASK_WDT, ESP_RST_WDT, ESP_RST_DEEPSLEEP, ESP_RST_SDIO]"
  by (simp add: boot_def bootRestoreScheduled_setup shouldRunRestoreOnBoot_def power_up_def)

lemma published_local_off:
  "\<not> session s \<Longrightarrow> published (trace (restoreTo45AndOff cfg hw tag pre s)) = published (trace s)"
proof -
  assume off: "\<not> session s"
  have "published (trace (restoreTo45AndOff cfg hw tag pre s))
          = published (calls (trace (restoreTo45AndOff cfg hw tag pre s)))"
    by (simp only: published_calls)
  also have "\<dots> = published (calls (trace s) @ restore_script cfg [] False tag)"
    using off_restoreTo45AndOff[OF off, of cfg hw tag pre "[]"] by simp
  also have "\<dots> = published (trace s)"
    by (simp add: published_calls published_restore_script_off)
  finally show ?thesis .
qed

lemma loop_bootRestore_fires:
  "bootRestoreScheduled s \<Longrightarrow> bootRestoreAtMs s \<le> millis s \<Longrightarrow>
   loop_bootRestore cfg hw s =
     restoreTo45AndOff cfg hw ''boot_powerloss'' 0
       (if session s \<and> hw_sock hw (tick s)
        then publishStatus hw ''boot:powerloss_restore:run'' True
               (s\<lparr>bootRestoreScheduled := False, session := True, tick := Suc (tick s)\<rparr>)
        else s\<lparr>bootRestoreScheduled := False, session := False, tick := Suc (tick s)\<rparr>)"
  by (auto simp add: loop_bootRestore_def mqtt_connected_def Let_def millis_def)

lemma loop_bootRestore_waits:
  "\<not> (bootRestoreScheduled s \<and> bootRestoreAtMs s \<le> millis s) \<Longrightarrow> loop_bootRestore cfg hw s = s"
  by (auto simp add: loop_bootRestore_def)

lemma setAvailability_eq:
  "setAvailability hw st s =
     (if session s \<and> hw_sock hw (tick s)
      then (if hw_sock hw (Suc (tick s))
            then s\<lparr>session := True, tick := Suc (Suc (tick s)),
                   trace := trace s @ [MqttPublish (mqttTopicAvail s) st True]\<rparr>
            else s\<lparr>session := False, tick := Suc (Suc (tick s))\<rparr>)
      else s\<lparr>session := False, tick := Suc (tick s)\<rparr>)"
  by (simp add: setAvailability_def mqtt_publish_def mqtt_connected_def emit_def Let_def)

lemma ensureWiFi_eq:
  "ensureWiFiNonBlocking cfg hw s =
     (if \<not> hw_wifi hw (tick s) \<and> WIFI_RETRY_MS \<le> millis s - lastWifiAttemptMs s
      then s\<lparr>lastWifiAttemptMs := millis s, tick := Suc (tick s),
             trace := trace s @ [SerialLine (''WiFi: connecting to '' @ WIFI_SSID cfg),
                                 LibCall ''WiFi.mode(WIFI_STA)'', WifiBegin (WIFI_SSID cfg)]\<rparr>
      else s\<lparr>tick := Suc (tick s)\<rparr>)"
  by (auto simp add: ensureWiFiNonBlocking_def wifi_connected_def prim_defs Let_def not_less)

lemma ensureMQTT_idle:
  "\<not> mqtt_due hw s \<Longrightarrow>
   ensureMQTTNonBlocking cfg hw s =
     (if hw_wifi hw (tick s)
      then s\<lparr>session := session s \<and> hw_sock hw (Suc (tick s)), tick := Suc (Suc (tick s))\<rparr>
      else s\<lparr>tick := Suc (tick s)\<rparr>)"
  by (auto simp add: mqtt_due_def ensureMQTTNonBlocking_def wifi_connected_def mqtt_connected_def
        prim_defs Let_def not_less)

lemma ensureMQTT_refused:
  "mqtt_due hw s \<Longrightarrow> \<not> hw_connack hw (Suc (Suc (tick s))) \<Longrightarrow>
   ensureMQTTNonBlocking cfg hw s =
     s\<lparr>lastMqttAttemptMs := millis s, session := False, tick := Suc (Suc (Suc (tick s))),
       trace := trace s @ [SerialLine (''MQTT: connecting to '' @ MQTT_HOST cfg @ '':''
                                         @ decimal (unat (MQTT_PORT cfg))),
                           MqttConnect (mqttTopicAvail s) AVAIL_OFFLINE False,
                           SerialLine ''MQTT: FAILED, state=<mqtt.state()>'']\<rparr>"
  by (auto simp add: mqtt_due_def ensureMQTTNonBlocking_def wifi_connected_def mqtt_connected_def
        mqtt_connect_def prim_defs Let_def not_less)

lemma ensureMQTT_accepted:
  "mqtt_due hw s \<Longrightarrow> hw_connack hw (Suc (Suc (tick s))) \<Longrightarrow>
   ensureMQTTNonBlocking cfg hw s =
     (publishStatus hw ''online'' True
        (setAvailability hw AVAIL_ONLINE
           (s\<lparr>lastMqttAttemptMs := millis s, session := True, tick := Suc (Suc (Suc (tick s))),
              trace := trace s @ [SerialLine (''MQTT: connecting to '' @ MQTT_HOST cfg @ '':''
                                                @ decimal (unat (MQTT_PORT cfg))),
                                  MqttConnect (mqttTopicAvail s) AVAIL_OFFLINE True,
                                  SerialLine ''MQTT: connected'',
                                  MqttSubscribe (mqttTopicCmd s)]\<rparr>)))
        \<lparr>discoveryPublished := False\<rparr>"
  by (auto simp add: mqtt_due_def ensureMQTTNonBlocking_def wifi_connected_def mqtt_connected_def
        mqtt_connect_def mqtt_subscribe_def prim_defs Let_def not_less)


lemma attempts_simps [simp]:
  "wifi_attempts [] = 0" "wifi_attempts (xs @ ys) = wifi_attempts xs + wifi_attempts ys"
  "wifi_attempts (e # es) = (if is_wifi_attempt e then 1 else 0) + wifi_attempts es"
  "mqtt_attempts [] = 0" "mqtt_attempts (xs @ ys) = mqtt_attempts xs + mqtt_attempts ys"
  "mqtt_attempts (e # es) = (if is_mqtt_attempt e then 1 else 0) + mqtt_attempts es"
  by (simp_all add: wifi_attempts_def mqtt_attempts_def)

lemma ensureMQTT_attempts:
  "mqtt_attempts (trace (ensureMQTTNonBlocking cfg hw s)) =
     mqtt_attempts (trace s) + (if mqtt_due hw s then 1 else 0)"
proof (cases "mqtt_due hw s")
  case False
  then show ?thesis by (simp add: ensureMQTT_idle)
next
  case True
  show ?thesis
  proof (cases "hw_connack hw (Suc (Suc (tick s)))")
    case False
    with True show ?thesis by (simp add: ensureMQTT_refused)
  next
    case ok: True
    show ?thesis
      using True by (simp add: ensureMQTT_accepted[OF True ok] publishStatus_eq setAvailability_eq)
  qed
qed

lemma ensureMQTT_stamp:
  "lastMqttAttemptMs (ensureMQTTNonBlocking cfg hw s) =
     (if mqtt_due hw s then millis s else lastMqttAttemptMs s)"
proof (cases "mqtt_due hw s")
  case False
  then show ?thesis by (simp add: ensureMQTT_idle)
next
  case True
  show ?thesis
  proof (cases "hw_connack hw (Suc (Suc (tick s)))")
    case False
    with True show ?thesis by (simp add: ensureMQTT_refused)
  next
    case ok: True
    show ?thesis
      using True by (simp add: ensureMQTT_accepted[OF True ok] publishStatus_eq setAvailability_eq)
  qed
qed

lemma wifi_polls_attempts:
  "\<forall>k. \<not> hw_wifi hw k \<Longrightarrow> lastWifiAttemptMs s = millis s \<Longrightarrow>
   wifi_attempts (trace (wifi_polls cfg hw n s)) = wifi_attempts (trace s) + n"
proof (induction n arbitrary: s)
  case 0
  then show ?case by simp
next
  case (Suc n)
  let ?s = "ensureWiFiNonBlocking cfg hw (idle WIFI_RETRY_MS s)"
  have due: "WIFI_RETRY_MS \<le> millis (idle WIFI_RETRY_MS s) - lastWifiAttemptMs (idle WIFI_RETRY_MS s)"
    using Suc.prems(2) by (simp add: idle_def millis_def)
  have 1: "lastWifiAttemptMs ?s = millis ?s"
    using Suc.prems(1) due by (simp add: ensureWiFi_eq millis_def)
  have 2: "wifi_attempts (trace ?s) = wifi_attempts (trace s) + 1"
    using Suc.prems(1) due by (simp add: ensureWiFi_eq) (simp add: idle_def)
  show ?case using Suc.IH[OF Suc.prems(1) 1] 2 by simp
qed

lemma mqtt_polls_attempts:
  "\<forall>k. hw_wifi hw k \<and> \<not> hw_connack hw k \<Longrightarrow> \<not> session s \<Longrightarrow> lastMqttAttemptMs s = millis s \<Longrightarrow>
   mqtt_attempts (trace (mqtt_polls cfg hw n s)) = mqtt_attempts (trace s) + n"
proof (induction n arbitrary: s)
  case 0
  then show ?case by simp
next
  case (Suc n)
  let ?i = "idle MQTT_RETRY_MS s"
  let ?s = "ensureMQTTNonBlocking cfg hw ?i"
  have due: "mqtt_due hw ?i"
    using Suc.prems by (simp add: mqtt_due_def idle_def millis_def)
  have no: "\<not> hw_connack hw (Suc (Suc (tick ?i)))" using Suc.prems(1) by simp
  have 1: "lastMqttAttemptMs ?s = millis ?s" "\<not> session ?s"
    by (simp_all add: ensureMQTT_refused[OF due no] millis_def)
  have 2: "mqtt_attempts (trace ?s) = mqtt_attempts (trace s) + 1"
    by (simp add: ensureMQTT_refused[OF due no]) (simp add: idle_def)
  show ?case using Suc.IH[OF Suc.prems(1) 1(2) 1(1)] 2 by simp
qed

text \<open>
  Claim C8. One call of \<^verbatim>\<open>ensureWiFiNonBlocking\<close> makes one connection attempt when the
  link is down and at least the cooldown interval has passed since the last attempt
  (in 32-bit arithmetic), and none otherwise; \<^verbatim>\<open>ensureMQTTNonBlocking\<close> does the same for
  the session, and only when the link is up. The time of the attempt is recorded when the
  attempt is made, whatever its outcome. Nothing else enters the decision: polled once
  per cooldown interval with the link down (or the broker refusing), the sketch makes an
  attempt at every poll, for any number of polls.
\<close>

theorem reconnect_on_fixed_cooldown:
  "wifi_attempts (trace (ensureWiFiNonBlocking cfg hw s)) =
     wifi_attempts (trace s)
     + (if \<not> hw_wifi hw (tick s) \<and> WIFI_RETRY_MS \<le> millis s - lastWifiAttemptMs s then 1 else 0)
   \<and> lastWifiAttemptMs (ensureWiFiNonBlocking cfg hw s) =
       (if \<not> hw_wifi hw (tick s) \<and> WIFI_RETRY_MS \<le> millis s - lastWifiAttemptMs s
        then millis s else lastWifiAttemptMs s)
   \<and> mqtt_attempts (trace (ensureMQTTNonBlocking cfg hw s)) =
       mqtt_attempts (trace s)
       + (if hw_wifi hw (tick s) \<and> \<not> (session s \<and> hw_sock hw (Suc (tick s)))
             \<and> MQTT_RETRY_MS \<le> millis s - lastMqttAttemptMs s then 1 else 0)
   \<and> lastMqttAttemptMs (ensureMQTTNonBlocking cfg hw s) =
       (if hw_wifi hw (tick s) \<and> \<not> (session s \<and> hw_sock hw (Suc (tick s)))
             \<and> MQTT_RETRY_MS \<le> millis s - lastMqttAttemptMs s
        then millis s else lastMqttAttemptMs s)
   \<and> ((\<forall>k. \<not> hw_wifi hw k) \<and> lastWifiAttemptMs s = millis s \<longrightarrow>
        wifi_attempts (trace (wifi_polls cfg hw n s)) = wifi_attempts (trace s) + n)
   \<and> ((\<forall>k. hw_wifi hw k \<and> \<not> hw_connack hw k) \<and> \<not> session s \<and> lastMqttAttemptMs s = millis s \<longrightarrow>
        mqtt_attempts (trace (mqtt_polls cfg hw n s)) = mqtt_attempts (trace s) + n)"
proof (intro conjI impI)
  show "wifi_attempts (trace (ensureWiFiNonBlocking cfg hw s)) =
     wifi_attempts (trace s)
     + (if \<not> hw_wifi hw (tick s) \<and> WIFI_RETRY_MS \<le> millis s - lastWifiAttemptMs s then 1 else 0)"
    by (simp add: ensureWiFi_eq)
  show "lastWifiAttemptMs (ensureWiFiNonBlocking cfg hw s) =
       (if \<not> hw_wifi hw (tick s) \<and> WIFI_RETRY_MS \<le> millis s - lastWifiAttemptMs s
        then millis s else lastWifiAttemptMs s)"
    by (simp add: ensureWiFi_eq)
  show "mqtt_attempts (trace (ensureMQTTNonBlocking cfg hw s)) =
       mqtt_attempts (trace s)
       + (if hw_wifi hw (tick s) \<and> \<not> (session s \<and> hw_sock hw (Suc (tick s)))
             \<and> MQTT_RETRY_MS \<le> millis s - lastMqttAttemptMs s then 1 else 0)"
    using ensureMQTT_attempts[of cfg hw s] by (simp only: mqtt_due_def)
  show "lastMqttAttemptMs (ensureMQTTNonBlocking cfg hw s) =
       (if hw_wifi hw (tick s) \<and> \<not> (session s \<and> hw_sock hw (Suc (tick s)))
             \<and> MQTT_RETRY_MS \<le> millis s - lastMqttAttemptMs s
        then millis s else lastMqttAttemptMs s)"
    using ensureMQTT_stamp[of cfg hw s] by (simp only: mqtt_due_def)
next
  assume "(\<forall>k. \<not> hw_wifi hw k) \<and> lastWifiAttemptMs s = millis s"
  then show "wifi_attempts (trace (wifi_polls cfg hw n s)) = wifi_attempts (trace s) + n"
    using wifi_polls_attempts by blast
next
  assume "(\<forall>k. hw_wifi hw k \<and> \<not> hw_connack hw k) \<and> \<not> session s \<and> lastMqttAttemptMs s = millis s"
  then show "mqtt_attempts (trace (mqtt_polls cfg hw n s)) = mqtt_attempts (trace s) + n"
    using mqtt_polls_attempts by blast
qed

theorem reconnect_on_fixed_cooldown_witness:
  "(\<forall>k. \<not> hw_wifi hw_offline k) \<and> lastWifiAttemptMs power_up = millis power_up
   \<and> wifi_attempts (trace (wifi_polls config_h hw_offline 1000 power_up)) = 1000
   \<and> (\<forall>k. hw_wifi hw_no_broker k \<and> \<not> hw_connack hw_no_broker k) \<and> \<not> session power_up
   \<and> lastMqttAttemptMs power_up = millis power_up
   \<and> mqtt_attempts (trace (mqtt_polls config_h hw_no_broker 1000 power_up)) = 1000"
proof -
  have h: "(\<forall>k. \<not> hw_wifi hw_offline k) \<and> lastWifiAttemptMs power_up = millis power_up"
      "(\<forall>k. hw_wifi hw_no_broker k \<and> \<not> hw_connack hw_no_broker k) \<and> \<not> session power_up
         \<and> lastMqttAttemptMs power_up = millis power_up"
      "trace power_up = []"
    by (simp_all add: hw_offline_def hw_no_broker_def hw_online_def power_up_def millis_def)
  show ?thesis
    using h reconnect_on_fixed_cooldown[of config_h hw_offline power_up 1000]
      reconnect_on_fixed_cooldown[of config_h hw_no_broker power_up 1000]
    by simp
qed

lemma ir_frames_sendCmd:
  "ir_frames (trace (sendCmd cfg hw code tag s)) = ir_frames (trace s) @ transmission code"
  by (simp add: sendCmd_trace transmission_def)

lemma published_sendCmd_on:
  "session s \<Longrightarrow> \<forall>n. hw_sock hw n \<Longrightarrow>
   published (trace (sendCmd cfg hw code tag s)) = published (trace s) @ [status_msg s (''sent:'' @ tag)]"
  by (simp add: sendCmd_trace status_msg_def)

lemma c_str_tokens:
  "c_str ''power_toggle'' = ''power_toggle''" "c_str ''power_level'' = ''power_level''"
  "c_str ''oscillation_toggle'' = ''oscillation_toggle''" "c_str ''sleep_timer'' = ''sleep_timer''"
  "c_str ''temp_mode'' = ''temp_mode''" "c_str ''temp_up'' = ''temp_up''"
  "c_str ''temp_down'' = ''temp_down''" "c_str ''restore_state'' = ''restore_state''"
  by (simp_all add: c_str_def NUL_def)

lemma c_str_idem [simp]: "c_str (c_str msg) = c_str msg"
  by (simp add: c_str_def)

lemma c_str_no_NUL: "NUL \<notin> set msg \<Longrightarrow> c_str msg = msg"
  by (auto simp add: c_str_def)

lemma unknown_cmd:
  assumes "c_str cmd \<notin> set recognized"
  shows "handleCommand cfg hw cmd s =
           Serial_println ''error:unknown_cmd''
             (publishStatus hw ''error:unknown_cmd'' True (Serial_println (''MQTT cmd: '' @ cmd) s))"
  using assms
  by (simp add: recognized_def command_table_def handleCommand_def Let_def String_equals_def
        c_str_tokens)

lemma handle_each:
  "c_str cmd = ''power_toggle'' \<Longrightarrow> handleCommand cfg hw cmd s = sendCmd cfg hw IR_POWER_TOGGLE ''power_toggle'' (Serial_println (''MQTT cmd: '' @ cmd) s)"
  "c_str cmd = ''power_level'' \<Longrightarrow> handleCommand cfg hw cmd s = sendCmd cfg hw IR_POWER_LEVEL ''power_level'' (Serial_println (''MQTT cmd: '' @ cmd) s)"
  "c_str cmd = ''oscillation_toggle'' \<Longrightarrow> handleCommand cfg hw cmd s = sendCmd cfg hw IR_OSCILLATION_TOGGLE ''oscillation_toggle'' (Serial_println (''MQTT cmd: '' @ cmd) s)"
  "c_str cmd = ''sleep_timer'' \<Longrightarrow> handleCommand cfg hw cmd s = sendCmd cfg hw IR_SLEEP_TIMER ''sleep_timer'' (Serial_println (''MQTT cmd: '' @ cmd) s)"
  "c_str cmd = ''temp_mode'' \<Longrightarrow> handleCommand cfg hw cmd s = sendCmd cfg hw IR_TEMP_MODE ''temp_mode'' (Serial_println (''MQTT cmd: '' @ cmd) s)"
  "c_str cmd = ''temp_up'' \<Longrightarrow> handleCommand cfg hw cmd s = sendCmd cfg hw IR_TEMP_UP ''temp_up'' (Serial_println (''MQTT cmd: '' @ cmd) s)"
  "c_str cmd = ''temp_down'' \<Longrightarrow> handleCommand cfg hw cmd s = sendCmd cfg hw IR_TEMP_DOWN ''temp_down'' (Serial_println (''MQTT cmd: '' @ cmd) s)"
  by (simp_all add: handleCommand_def Let_def String_equals_def c_str_tokens)

lemma handle_single:
  "(tok, code) \<in> set command_table \<Longrightarrow> c_str cmd = tok \<Longrightarrow>
   handleCommand cfg hw cmd s = sendCmd cfg hw code tok (Serial_println (''MQTT cmd: '' @ cmd) s)"
  unfolding command_table_def using handle_each[of cmd cfg hw s] by auto

lemma handle_restore:
  "c_str cmd = ''restore_state'' \<Longrightarrow>
   handleCommand cfg hw cmd s =
     restoreTo45AndOff cfg hw ''mqtt'' (MANUAL_DELAY_MS cfg) (Serial_println (''MQTT cmd: '' @ cmd) s)"
  by (simp add: handleCommand_def Let_def String_equals_def c_str_tokens)

lemma c_str_table: "(tok, code) \<in> set command_table \<Longrightarrow> c_str tok = tok"
  unfolding command_table_def using c_str_tokens by auto

lemma transmission_not_Nil: "xs @ transmission code \<noteq> xs"
  by (simp add: transmission_def)

lemma recognized_transmits:
  assumes "c_str cmd \<in> set recognized"
  shows "ir_frames (trace (handleCommand cfg hw cmd s)) \<noteq> ir_frames (trace s)"
proof (cases "c_str cmd = ''restore_state''")
  case True
  show ?thesis
    unfolding handle_restore[OF True]
    by (simp add: ir_frames_restoreTo45AndOff restore_codes_def transmission_def)
next
  case False
  then obtain code where "(c_str cmd, code) \<in> set command_table"
    using assms by (auto simp add: recognized_def)
  from handle_single[OF this refl, of cfg hw s] show ?thesis
    by (simp add: ir_frames_sendCmd transmission_def)
qed

lemma trim_padded:
  assumes a: "list_all isspace ws1" and b: "list_all isspace ws2"
    and c: "body = [] \<or> (\<not> isspace (hd body) \<and> \<not> isspace (last body))"
  shows "String_trim (ws1 @ body @ ws2) = body"
proof (cases "body = []")
  case True
  have d: "dropWhile isspace (ws1 @ ws2) = []"
    using a b by (auto simp add: list_all_iff dropWhile_eq_Nil_conv)
  show ?thesis unfolding String_trim_def True append_Nil d by simp
next
  case False
  then have h: "\<not> isspace (hd body)" and l: "\<not> isspace (last body)" using c by simp_all
  have 1: "dropWhile isspace (ws1 @ body @ ws2) = body @ ws2"
  proof -
    have "dropWhile isspace (ws1 @ body @ ws2) = dropWhile isspace (body @ ws2)"
      using a by (simp add: list_all_iff dropWhile_append2)
    also have "\<dots> = body @ ws2"
      using False h by (cases body) simp_all
    finally show ?thesis .
  qed
  have 2: "dropWhile isspace (rev (body @ ws2)) = rev body"
  proof -
    have "\<And>x. x \<in> set (rev ws2) \<Longrightarrow> isspace x"
      using b by (simp add: list_all_iff)
    then have "dropWhile isspace (rev ws2 @ rev body) = dropWhile isspace (rev body)"
      by (rule dropWhile_append2)
    also have "\<dots> = rev body"
      using False l by (cases "rev body") (simp_all add: last_rev[symmetric] hd_rev)
    finally show ?thesis by simp
  qed
  show ?thesis unfolding String_trim_def 1 2 by simp
qed

lemma trim_shape:
  "\<exists>ws1 ws2. payload = ws1 @ String_trim payload @ ws2
     \<and> list_all isspace ws1 \<and> list_all isspace ws2
     \<and> (String_trim payload = []
         \<or> (\<not> isspace (hd (String_trim payload)) \<and> \<not> isspace (last (String_trim payload))))"
proof -
  define m where "m = dropWhile isspace payload"
  define r where "r = dropWhile isspace (rev m)"
  have t: "String_trim payload = rev r" by (simp add: String_trim_def m_def r_def)
  have p: "payload = takeWhile isspace payload @ m" by (simp add: m_def)
  have "rev m = takeWhile isspace (rev m) @ r" by (simp add: r_def)
  then have "rev (rev m) = rev (takeWhile isspace (rev m) @ r)" by simp
  then have q: "m = rev r @ rev (takeWhile isspace (rev m))" by simp
  have w1: "list_all isspace (takeWhile isspace payload)"
    by (simp add: list_all_iff) (meson set_takeWhileD)
  have w2: "list_all isspace (rev (takeWhile isspace (rev m)))"
    by (simp add: list_all_iff) (meson set_takeWhileD)
  have e: "rev r = [] \<or> (\<not> isspace (hd (rev r)) \<and> \<not> isspace (last (rev r)))"
  proof (cases "r = []")
    case True
    then show ?thesis by simp
  next
    case False
    then have "\<not> isspace (hd r)" unfolding r_def by (rule hd_dropWhile)
    then have l: "\<not> isspace (last (rev r))" using False by (simp add: last_rev)
    have "m \<noteq> []" using q False by auto
    then have "\<not> isspace (hd m)" unfolding m_def by (rule hd_dropWhile)
    moreover have "hd m = hd (rev r)" using q False by (metis hd_append2 rev_is_Nil_conv)
    ultimately show ?thesis using l by simp
  qed
  have "payload = takeWhile isspace payload @ rev r @ rev (takeWhile isspace (rev m))"
    using p q by simp
  then show ?thesis
    unfolding t using w1 w2 e by blast
qed

lemma tolower_NUL [simp]: "(tolower c = NUL) = (c = NUL)"
proof
  assume "c = NUL"
  then show "tolower c = NUL" by (simp add: tolower_def NUL_def)
next
  assume a: "tolower c = NUL"
  show "c = NUL"
  proof (cases "65 \<le> (of_char c :: nat) \<and> (of_char c :: nat) \<le> 90")
    case False
    then have f: "(65 \<le> (of_char c :: nat) \<and> (of_char c :: nat) \<le> 90) = False" by simp
    show ?thesis using a unfolding tolower_def Let_def f by simp
  next
    case True
    then have "char_of ((of_char c :: nat) + 32) = NUL" using a by (simp add: tolower_def Let_def)
    then have "(of_char (char_of ((of_char c :: nat) + 32)) :: nat) = of_char NUL" by simp
    then have "((of_char c :: nat) + 32) mod 256 = 0" by (simp add: NUL_def)
    then show ?thesis using True by presburger
  qed
qed

lemma toLowerCase_length: "length (String_toLowerCase msg) = length msg"
proof -
  have "length (takeWhile (\<lambda>c. c \<noteq> NUL) msg) + length (dropWhile (\<lambda>c. c \<noteq> NUL) msg) = length msg"
    by (metis length_append takeWhile_dropWhile_id)
  then show ?thesis by (simp add: String_toLowerCase_def)
qed

lemma toLowerCase_plain: "NUL \<notin> set msg \<Longrightarrow> String_toLowerCase msg = map tolower msg"
proof -
  assume "NUL \<notin> set msg"
  then have a: "\<forall>x\<in>set msg. x \<noteq> NUL" by auto
  then have e: "takeWhile (\<lambda>c. c \<noteq> NUL) msg = msg" "dropWhile (\<lambda>c. c \<noteq> NUL) msg = []"
    by (simp_all add: takeWhile_eq_all_conv dropWhile_eq_Nil_conv)
  show ?thesis unfolding String_toLowerCase_def e by simp
qed

lemma toLowerCase_NUL:
  "NUL \<notin> set pre \<Longrightarrow> String_toLowerCase (pre @ NUL # post) = map tolower pre @ NUL # post"
proof -
  assume "NUL \<notin> set pre"
  then have a: "\<forall>x\<in>set pre. x \<noteq> NUL" by auto
  then have e: "takeWhile (\<lambda>c. c \<noteq> NUL) (pre @ NUL # post) = pre"
      "dropWhile (\<lambda>c. c \<noteq> NUL) (pre @ NUL # post) = NUL # post"
    by (simp_all add: takeWhile_tail dropWhile_append3)
  show ?thesis unfolding String_toLowerCase_def e by simp
qed

lemma c_str_toLowerCase: "c_str (String_toLowerCase msg) = map tolower (c_str msg)"
proof (induction msg)
  case Nil
  show ?case by (simp add: c_str_def String_toLowerCase_def)
next
  case (Cons a msg)
  then show ?case by (simp add: c_str_def String_toLowerCase_def)
qed

lemma tolower_letters:
  "map tolower ''ABCDEFGHIJKLMNOPQRSTUVWXYZ'' = ''abcdefghijklmnopqrstuvwxyz''"
  by code_simp

lemma char_code_cases:
  assumes "lo \<le> (of_char c :: nat)" "(of_char c :: nat) \<le> hi"
  shows "c \<in> set (map char_of [lo..<Suc hi])"
proof -
  have "(of_char c :: nat) \<in> set [lo..<Suc hi]" using assms by auto
  then have "char_of (of_char c :: nat) \<in> char_of ` set [lo..<Suc hi]"
    by (rule imageI)
  then show ?thesis by (simp only: set_map char_of_char)
qed

lemma upper_letters:
  "map char_of [65..<Suc 90] = ''ABCDEFGHIJKLMNOPQRSTUVWXYZ''"
  by code_simp

lemma tolower_other: "c \<notin> set ''ABCDEFGHIJKLMNOPQRSTUVWXYZ'' \<Longrightarrow> tolower c = c"
proof -
  assume n: "c \<notin> set ''ABCDEFGHIJKLMNOPQRSTUVWXYZ''"
  have "\<not> (65 \<le> (of_char c :: nat) \<and> (of_char c :: nat) \<le> 90)"
    using char_code_cases[of 65 c 90] n unfolding upper_letters by blast
  then have f: "(65 \<le> (of_char c :: nat) \<and> (of_char c :: nat) \<le> 90) = False" by simp
  show ?thesis unfolding tolower_def Let_def f by simp
qed

lemma space_chars: "map char_of [9..<Suc 13] = [CHR 0x09, CHR 0x0A, CHR 0x0B, CHR 0x0C, CHR 0x0D]"
  by code_simp

lemma isspace_chars:
  "isspace c = (c \<in> set [CHR 0x20, CHR 0x09, CHR 0x0A, CHR 0x0B, CHR 0x0C, CHR 0x0D])"
proof
  assume "isspace c"
  then have "(of_char c :: nat) = 32 \<or> (9 \<le> (of_char c :: nat) \<and> (of_char c :: nat) \<le> 13)"
    by (simp add: isspace_def Let_def)
  then show "c \<in> set [CHR 0x20, CHR 0x09, CHR 0x0A, CHR 0x0B, CHR 0x0C, CHR 0x0D]"
  proof
    assume "(of_char c :: nat) = 32"
    then have "(of_char c :: nat) = of_char (CHR 0x20)" by simp
    then have "c = CHR 0x20" by (simp only: of_char_eq_iff)
    then show ?thesis by simp
  next
    assume "9 \<le> (of_char c :: nat) \<and> (of_char c :: nat) \<le> 13"
    then have "c \<in> set (map char_of [9..<Suc 13])" using char_code_cases by blast
    then show ?thesis unfolding space_chars by simp
  qed
next
  assume "c \<in> set [CHR 0x20, CHR 0x09, CHR 0x0A, CHR 0x0B, CHR 0x0C, CHR 0x0D]"
  then show "isspace c" by (auto simp add: isspace_def)
qed

lemma callback_eq:
  "mqttCallback cfg hw payload s = handleCommand cfg hw (String_toLowerCase (String_trim payload)) s"
  by (simp add: mqttCallback_def Let_def)

lemma callback_single:
  assumes m: "(tok, code) \<in> set command_table"
    and k: "map tolower (c_str (String_trim payload)) = tok"
  shows "mqttCallback cfg hw payload s =
           sendCmd cfg hw code tok
             (Serial_println (''MQTT cmd: '' @ String_toLowerCase (String_trim payload)) s)"
  unfolding callback_eq
  by (rule handle_single[OF m]) (simp add: c_str_toLowerCase k)

lemma callback_restore:
  assumes k: "map tolower (c_str (String_trim payload)) = ''restore_state''"
  shows "mqttCallback cfg hw payload s =
           restoreTo45AndOff cfg hw ''mqtt'' (MANUAL_DELAY_MS cfg)
             (Serial_println (''MQTT cmd: '' @ String_toLowerCase (String_trim payload)) s)"
  unfolding callback_eq
  by (rule handle_restore) (simp add: c_str_toLowerCase k)

lemma callback_unknown:
  assumes k: "map tolower (c_str (String_trim payload)) \<notin> set recognized"
  shows "mqttCallback cfg hw payload s =
           Serial_println ''error:unknown_cmd''
             (publishStatus hw ''error:unknown_cmd'' True
                (Serial_println (''MQTT cmd: '' @ String_toLowerCase (String_trim payload)) s))"
  unfolding callback_eq
  by (rule unknown_cmd) (simp add: c_str_toLowerCase k)

lemma normalise_example: "map tolower (c_str (String_trim ''  Temp_Up  '')) = ''temp_up''"
  by code_simp

text \<open>
  Claim C3. For each of the seven single-code commands, \<^verbatim>\<open>handleCommand\<close> is one call of
  the labelled transmitter with the command's code and the command as tag: one
  transmission of that code, nothing else transmitted, and \<open>sent:<command>\<close> published
  once while the session lasts; the same holds for every text that reads as the command
  up to its first NUL. \<^verbatim>\<open>restore_state\<close> is one run of the restore macro with tag \<open>mqtt\<close> and
  the manual pre-delay. \<^verbatim>\<open>mqttCallback\<close> dispatches on the payload trimmed and
  lower-cased: what is matched is \<open>map tolower (c_str (String_trim payload))\<close>, so a payload
  whose normal form is a command transmits that command's code once, one whose normal
  form is \<open>restore_state\<close> runs the macro, and any other transmits nothing. The trimmed
  payload is the payload without the white space at its two ends, and it is the only
  such text; lower-casing keeps the length, maps the letters A to Z to a to z, leaves
  every other character as it is and stops at the first NUL; white space is the blank
  and the characters 9 to 13. So the payload \<open>  Temp_Up  \<close> is dispatched as \<open>temp_up\<close>: one
  transmission of the temp-up code, one \<open>sent:temp_up\<close>, no macro.
\<close>

theorem command_dispatch:
  "(\<forall>(tok, code) \<in> set command_table.
      handleCommand cfg hw tok s = sendCmd cfg hw code tok (Serial_println (''MQTT cmd: '' @ tok) s)
      \<and> ir_frames (trace (handleCommand cfg hw tok s)) = ir_frames (trace s) @ transmission code
      \<and> local_calls (trace (handleCommand cfg hw tok s)) =
          local_calls (trace s) @ [SerialLine (''MQTT cmd: '' @ tok)] @ cmd_script [] False code tok
      \<and> (session s \<and> (\<forall>n. hw_sock hw n) \<longrightarrow>
           published (trace (handleCommand cfg hw tok s)) =
             published (trace s) @ [status_msg s (''sent:'' @ tok)])
      \<and> (\<forall>cmd. c_str cmd = tok \<longrightarrow>
            handleCommand cfg hw cmd s =
              sendCmd cfg hw code tok (Serial_println (''MQTT cmd: '' @ cmd) s)))
   \<and> handleCommand cfg hw ''restore_state'' s =
       restoreTo45AndOff cfg hw ''mqtt'' (MANUAL_DELAY_MS cfg)
         (Serial_println ''MQTT cmd: restore_state'' s)
   \<and> ir_frames (trace (handleCommand cfg hw ''restore_state'' s)) =
       ir_frames (trace s) @ concat (map transmission (restore_codes cfg))
   \<and> local_calls (trace (handleCommand cfg hw ''restore_state'' s)) =
       local_calls (trace s) @ [SerialLine ''MQTT cmd: restore_state'']
       @ restore_script cfg [] False ''mqtt''
   \<and> (\<forall>cmd. c_str cmd = ''restore_state'' \<longrightarrow>
         handleCommand cfg hw cmd s =
           restoreTo45AndOff cfg hw ''mqtt'' (MANUAL_DELAY_MS cfg)
             (Serial_println (''MQTT cmd: '' @ cmd) s))
   \<and> mqttCallback cfg hw payload s =
       handleCommand cfg hw (String_toLowerCase (String_trim payload)) s
   \<and> c_str (String_toLowerCase (String_trim payload)) = map tolower (c_str (String_trim payload))
   \<and> (\<forall>(tok, code) \<in> set command_table.
        map tolower (c_str (String_trim payload)) = tok \<longrightarrow>
          ir_frames (trace (mqttCallback cfg hw payload s)) = ir_frames (trace s) @ transmission code
          \<and> local_calls (trace (mqttCallback cfg hw payload s)) =
              local_calls (trace s)
              @ [SerialLine (''MQTT cmd: '' @ String_toLowerCase (String_trim payload))]
              @ cmd_script [] False code tok
          \<and> (session s \<and> (\<forall>n. hw_sock hw n) \<longrightarrow>
               published (trace (mqttCallback cfg hw payload s)) =
                 published (trace s) @ [status_msg s (''sent:'' @ tok)]))
   \<and> (map tolower (c_str (String_trim payload)) = ''restore_state'' \<longrightarrow>
        ir_frames (trace (mqttCallback cfg hw payload s)) =
          ir_frames (trace s) @ concat (map transmission (restore_codes cfg)))
   \<and> (map tolower (c_str (String_trim payload)) \<notin> set recognized \<longrightarrow>
        ir_frames (trace (mqttCallback cfg hw payload s)) = ir_frames (trace s))
   \<and> (list_all isspace ws1 \<and> list_all isspace ws2
        \<and> (body = [] \<or> (\<not> isspace (hd body) \<and> \<not> isspace (last body))) \<longrightarrow>
        String_trim (ws1 @ body @ ws2) = body)
   \<and> (\<exists>ws1 ws2. payload = ws1 @ String_trim payload @ ws2
          \<and> list_all isspace ws1 \<and> list_all isspace ws2
          \<and> (String_trim payload = []
              \<or> (\<not> isspace (hd (String_trim payload)) \<and> \<not> isspace (last (String_trim payload)))))
   \<and> length (String_toLowerCase msg) = length msg
   \<and> (NUL \<notin> set msg \<longrightarrow> String_toLowerCase msg = map tolower msg)
   \<and> (NUL \<notin> set msg \<longrightarrow> String_toLowerCase (msg @ NUL # post) = map tolower msg @ NUL # post)
   \<and> map tolower ''ABCDEFGHIJKLMNOPQRSTUVWXYZ'' = ''abcdefghijklmnopqrstuvwxyz''
   \<and> (c \<notin> set ''ABCDEFGHIJKLMNOPQRSTUVWXYZ'' \<longrightarrow> tolower c = c)
   \<and> isspace c = (c \<in> set [CHR 0x20, CHR 0x09, CHR 0x0A, CHR 0x0B, CHR 0x0C, CHR 0x0D])
   \<and> map tolower (c_str (String_trim ''  Temp_Up  '')) = ''temp_up''
   \<and> ir_frames (trace (mqttCallback cfg hw ''  Temp_Up  '' s)) =
       ir_frames (trace s) @ transmission IR_TEMP_UP
   \<and> local_calls (trace (mqttCallback cfg hw ''  Temp_Up  '' s)) =
       local_calls (trace s) @ [SerialLine ''MQTT cmd: temp_up'']
       @ cmd_script [] False IR_TEMP_UP ''temp_up''
   \<and> (session s \<and> (\<forall>n. hw_sock hw n) \<longrightarrow>
        published (trace (mqttCallback cfg hw ''  Temp_Up  '' s)) =
          published (trace s) @ [status_msg s ''sent:temp_up''])"
proof -
  have up: "(''temp_up'', IR_TEMP_UP) \<in> set command_table"
    by (simp add: command_table_def)
  have ex: "String_toLowerCase (String_trim ''  Temp_Up  '') = ''temp_up''" by code_simp
  have tu: "mqttCallback cfg hw ''  Temp_Up  '' s =
              sendCmd cfg hw IR_TEMP_UP ''temp_up'' (Serial_println (''MQTT cmd: '' @ ''temp_up'') s)"
    using callback_single[OF up normalise_example, of cfg hw s] unfolding ex .
  have single': "handleCommand cfg hw tok s = sendCmd cfg hw code tok (Serial_println (''MQTT cmd: '' @ tok) s)
      \<and> ir_frames (trace (handleCommand cfg hw tok s)) = ir_frames (trace s) @ transmission code
      \<and> local_calls (trace (handleCommand cfg hw tok s)) =
          local_calls (trace s) @ [SerialLine (''MQTT cmd: '' @ tok)] @ cmd_script [] False code tok
      \<and> (session s \<and> (\<forall>n. hw_sock hw n) \<longrightarrow>
           published (trace (handleCommand cfg hw tok s)) =
             published (trace s) @ [status_msg s (''sent:'' @ tok)])
      \<and> (\<forall>cmd. c_str cmd = tok \<longrightarrow>
            handleCommand cfg hw cmd s =
              sendCmd cfg hw code tok (Serial_println (''MQTT cmd: '' @ cmd) s))"
    if m: "(tok, code) \<in> set command_table" for tok code
  proof -
    note h = handle_single[OF m c_str_table[OF m], of cfg hw s]
    have 1: "ir_frames (trace (handleCommand cfg hw tok s)) = ir_frames (trace s) @ transmission code"
      unfolding h by (simp add: ir_frames_sendCmd)
    have 2: "local_calls (trace (handleCommand cfg hw tok s)) =
          local_calls (trace s) @ [SerialLine (''MQTT cmd: '' @ tok)] @ cmd_script [] False code tok"
      unfolding h by (simp add: local_sendCmd[where t="[]"])
    have 3: "session s \<and> (\<forall>n. hw_sock hw n) \<longrightarrow>
           published (trace (handleCommand cfg hw tok s)) =
             published (trace s) @ [status_msg s (''sent:'' @ tok)]"
      unfolding h by (simp add: published_sendCmd_on status_msg_def prim_defs)
    have 4: "\<forall>cmd. c_str cmd = tok \<longrightarrow>
            handleCommand cfg hw cmd s =
              sendCmd cfg hw code tok (Serial_println (''MQTT cmd: '' @ cmd) s)"
      using handle_single[OF m] by blast
    show ?thesis by (intro conjI h 1 2 3 4)
  qed
  have single: "\<forall>(tok, code) \<in> set command_table.
      handleCommand cfg hw tok s = sendCmd cfg hw code tok (Serial_println (''MQTT cmd: '' @ tok) s)
      \<and> ir_frames (trace (handleCommand cfg hw tok s)) = ir_frames (trace s) @ transmission code
      \<and> local_calls (trace (handleCommand cfg hw tok s)) =
          local_calls (trace s) @ [SerialLine (''MQTT cmd: '' @ tok)] @ cmd_script [] False code tok
      \<and> (session s \<and> (\<forall>n. hw_sock hw n) \<longrightarrow>
           published (trace (handleCommand cfg hw tok s)) =
             published (trace s) @ [status_msg s (''sent:'' @ tok)])
      \<and> (\<forall>cmd. c_str cmd = tok \<longrightarrow>
            handleCommand cfg hw cmd s =
              sendCmd cfg hw code tok (Serial_println (''MQTT cmd: '' @ cmd) s))"
    using single' by blast
  note hr = handle_restore[OF c_str_tokens(8), of cfg hw s]
  have r0: "handleCommand cfg hw ''restore_state'' s =
       restoreTo45AndOff cfg hw ''mqtt'' (MANUAL_DELAY_MS cfg)
         (Serial_println ''MQTT cmd: restore_state'' s)"
    using hr by simp
  have r1: "ir_frames (trace (handleCommand cfg hw ''restore_state'' s)) =
       ir_frames (trace s) @ concat (map transmission (restore_codes cfg))"
    unfolding hr by (simp add: ir_frames_restoreTo45AndOff)
  have r2: "local_calls (trace (handleCommand cfg hw ''restore_state'' s)) =
       local_calls (trace s) @ [SerialLine ''MQTT cmd: restore_state'']
       @ restore_script cfg [] False ''mqtt''"
    unfolding hr by (simp add: local_restoreTo45AndOff[where t="[]"])
  have r3: "\<forall>cmd. c_str cmd = ''restore_state'' \<longrightarrow>
         handleCommand cfg hw cmd s =
           restoreTo45AndOff cfg hw ''mqtt'' (MANUAL_DELAY_MS cfg)
             (Serial_println (''MQTT cmd: '' @ cmd) s)"
    using handle_restore by blast
  have n1': "ir_frames (trace (mqttCallback cfg hw payload s)) = ir_frames (trace s) @ transmission code
          \<and> local_calls (trace (mqttCallback cfg hw payload s)) =
              local_calls (trace s)
              @ [SerialLine (''MQTT cmd: '' @ String_toLowerCase (String_trim payload))]
              @ cmd_script [] False code tok
          \<and> (session s \<and> (\<forall>n. hw_sock hw n) \<longrightarrow>
               published (trace (mqttCallback cfg hw payload s)) =
                 published (trace s) @ [status_msg s (''sent:'' @ tok)])"
    if m: "(tok, code) \<in> set command_table"
      and k: "map tolower (c_str (String_trim payload)) = tok" for tok code
    unfolding callback_single[OF m k, of cfg hw s]
    by (simp add: ir_frames_sendCmd local_sendCmd[where t="[]"] published_sendCmd_on
          status_msg_def prim_defs)
  have n1: "\<forall>(tok, code) \<in> set command_table.
        map tolower (c_str (String_trim payload)) = tok \<longrightarrow>
          ir_frames (trace (mqttCallback cfg hw payload s)) = ir_frames (trace s) @ transmission code
          \<and> local_calls (trace (mqttCallback cfg hw payload s)) =
              local_calls (trace s)
              @ [SerialLine (''MQTT cmd: '' @ String_toLowerCase (String_trim payload))]
              @ cmd_script [] False code tok
          \<and> (session s \<and> (\<forall>n. hw_sock hw n) \<longrightarrow>
               published (trace (mqttCallback cfg hw payload s)) =
                 published (trace s) @ [status_msg s (''sent:'' @ tok)])"
    using n1' by blast
  have n2: "map tolower (c_str (String_trim payload)) = ''restore_state'' \<longrightarrow>
        ir_frames (trace (mqttCallback cfg hw payload s)) =
          ir_frames (trace s) @ concat (map transmission (restore_codes cfg))"
    using callback_restore[of payload cfg hw s] by (simp add: ir_frames_restoreTo45AndOff)
  have n3: "map tolower (c_str (String_trim payload)) \<notin> set recognized \<longrightarrow>
        ir_frames (trace (mqttCallback cfg hw payload s)) = ir_frames (trace s)"
    using callback_unknown[of payload cfg hw s] by (simp add: publishStatus_eq prim_defs)
  have p1: "list_all isspace ws1 \<and> list_all isspace ws2
        \<and> (body = [] \<or> (\<not> isspace (hd body) \<and> \<not> isspace (last body))) \<longrightarrow>
        String_trim (ws1 @ body @ ws2) = body"
    using trim_padded by blast
  have t1: "ir_frames (trace (mqttCallback cfg hw ''  Temp_Up  '' s)) =
       ir_frames (trace s) @ transmission IR_TEMP_UP"
    unfolding tu by (simp add: ir_frames_sendCmd)
  have t2: "local_calls (trace (mqttCallback cfg hw ''  Temp_Up  '' s)) =
       local_calls (trace s) @ [SerialLine ''MQTT cmd: temp_up'']
       @ cmd_script [] False IR_TEMP_UP ''temp_up''"
    unfolding tu by (simp add: local_sendCmd[where t="[]"])
  have t3: "session s \<and> (\<forall>n. hw_sock hw n) \<longrightarrow>
        published (trace (mqttCallback cfg hw ''  Temp_Up  '' s)) =
          published (trace s) @ [status_msg s ''sent:temp_up'']"
    unfolding tu by (simp add: published_sendCmd_on status_msg_def prim_defs)
  have l2: "NUL \<notin> set msg \<longrightarrow> String_toLowerCase msg = map tolower msg"
    using toLowerCase_plain by blast
  have l3: "NUL \<notin> set msg \<longrightarrow> String_toLowerCase (msg @ NUL # post) = map tolower msg @ NUL # post"
    using toLowerCase_NUL by blast
  have l5: "c \<notin> set ''ABCDEFGHIJKLMNOPQRSTUVWXYZ'' \<longrightarrow> tolower c = c"
    using tolower_other by blast
  show ?thesis
    by (intro conjI single r0 r1 r2 r3 callback_eq c_str_toLowerCase n1 n2 n3 p1 trim_shape
          toLowerCase_length l2 l3 tolower_letters l5 isspace_chars normalise_example t1 t2 t3)
qed

theorem command_dispatch_witness:
  "(''sleep_timer'', IR_SLEEP_TIMER) \<in> set command_table
   \<and> session (power_up\<lparr>session := True\<rparr>) \<and> (\<forall>n. hw_sock hw_online n)
   \<and> ir_frames (trace (handleCommand config_h hw_online ''sleep_timer'' (power_up\<lparr>session := True\<rparr>)))
       = [(0xFF30CF, 32), (0xFF30CF, 32)]
   \<and> published (trace (handleCommand config_h hw_online ''sleep_timer'' (power_up\<lparr>session := True\<rparr>)))
       = [([], ''sent:sleep_timer'', True)]
   \<and> published (trace (mqttCallback config_h hw_online ''  Temp_Up  '' (power_up\<lparr>session := True\<rparr>)))
       = [([], ''sent:temp_up'', True)]
   \<and> (''power_level'', IR_POWER_LEVEL) \<in> set command_table
   \<and> map tolower (c_str (String_trim '' POWER_Level  '')) = ''power_level''
   \<and> ir_frames (trace (mqttCallback config_h hw_online '' POWER_Level  '' (power_up\<lparr>session := True\<rparr>)))
       = [(0xFF00FF, 32), (0xFF00FF, 32)]
   \<and> map tolower (c_str (String_trim ''frobnicate'')) \<notin> set recognized
   \<and> ir_frames (trace (mqttCallback config_h hw_online ''frobnicate'' (power_up\<lparr>session := True\<rparr>))) = []
   \<and> map tolower (c_str (String_trim ''temp up'')) \<notin> set recognized
   \<and> ir_frames (trace (mqttCallback config_h hw_online ''temp up'' (power_up\<lparr>session := True\<rparr>))) = []
   \<and> list_all isspace '' '' \<and> list_all isspace ''  ''
   \<and> \<not> isspace (hd ''POWER_Level'') \<and> \<not> isspace (last ''POWER_Level'')
   \<and> String_trim ('' '' @ ''POWER_Level'' @ ''  '') = ''POWER_Level''
   \<and> NUL \<notin> set ''POWER_Level''
   \<and> String_toLowerCase ''POWER_Level'' = ''power_level''
   \<and> String_toLowerCase (''POWER_Level'' @ NUL # ''ABC'') = ''power_level'' @ NUL # ''ABC''
   \<and> CHR ''a'' \<notin> set ''ABCDEFGHIJKLMNOPQRSTUVWXYZ'' \<and> tolower CHR ''a'' = CHR ''a''"
proof -
  let ?s = "power_up\<lparr>session := True\<rparr>"
  note T = command_dispatch[of config_h hw_online ?s _ _ _ _ "''POWER_Level''" "''ABC''" "CHR ''a''"]
  have m: "(''sleep_timer'', IR_SLEEP_TIMER) \<in> set command_table"
    and m2: "(''power_level'', IR_POWER_LEVEL) \<in> set command_table"
    by (simp_all add: command_table_def)
  have h: "session ?s \<and> (\<forall>n. hw_sock hw_online n)" "trace ?s = []" "mqttTopicStatus ?s = []"
    by (simp_all add: hw_online_def power_up_def)
  from T[of undefined undefined undefined undefined]
  have t1: "\<forall>(tok, code) \<in> set command_table.
      handleCommand config_h hw_online tok ?s =
        sendCmd config_h hw_online code tok (Serial_println (''MQTT cmd: '' @ tok) ?s)
      \<and> ir_frames (trace (handleCommand config_h hw_online tok ?s)) = ir_frames (trace ?s) @ transmission code
      \<and> local_calls (trace (handleCommand config_h hw_online tok ?s)) =
          local_calls (trace ?s) @ [SerialLine (''MQTT cmd: '' @ tok)] @ cmd_script [] False code tok
      \<and> (session ?s \<and> (\<forall>n. hw_sock hw_online n) \<longrightarrow>
           published (trace (handleCommand config_h hw_online tok ?s)) =
             published (trace ?s) @ [status_msg ?s (''sent:'' @ tok)])
      \<and> (\<forall>cmd. c_str cmd = tok \<longrightarrow>
            handleCommand config_h hw_online cmd ?s =
              sendCmd config_h hw_online code tok (Serial_println (''MQTT cmd: '' @ cmd) ?s))"
    and c: "session ?s \<and> (\<forall>n. hw_sock hw_online n) \<longrightarrow>
             published (trace (mqttCallback config_h hw_online ''  Temp_Up  '' ?s)) =
               published (trace ?s) @ [status_msg ?s ''sent:temp_up'']"
    and i: "NUL \<notin> set ''POWER_Level'' \<longrightarrow> String_toLowerCase ''POWER_Level'' = map tolower ''POWER_Level''"
    and j: "NUL \<notin> set ''POWER_Level'' \<longrightarrow>
             String_toLowerCase (''POWER_Level'' @ NUL # ''ABC'') = map tolower ''POWER_Level'' @ NUL # ''ABC''"
    and r: "CHR ''a'' \<notin> set ''ABCDEFGHIJKLMNOPQRSTUVWXYZ'' \<longrightarrow> tolower CHR ''a'' = CHR ''a''"
    by - ((elim conjE, assumption)+)
  have a: "ir_frames (trace (handleCommand config_h hw_online ''sleep_timer'' ?s))
             = ir_frames (trace ?s) @ transmission IR_SLEEP_TIMER"
    and b: "published (trace (handleCommand config_h hw_online ''sleep_timer'' ?s)) =
               published (trace ?s) @ [status_msg ?s (''sent:'' @ ''sleep_timer'')]"
    using t1 m h(1) by blast+
  have k1: "map tolower (c_str (String_trim '' POWER_Level  '')) = ''power_level''" by code_simp
  have k2: "map tolower (c_str (String_trim ''frobnicate'')) \<notin> set recognized" by code_simp
  have k3: "map tolower (c_str (String_trim ''temp up'')) \<notin> set recognized" by code_simp
  from T[of "'' POWER_Level  ''" undefined undefined undefined]
  have t2: "\<forall>(tok, code) \<in> set command_table.
        map tolower (c_str (String_trim '' POWER_Level  '')) = tok \<longrightarrow>
          ir_frames (trace (mqttCallback config_h hw_online '' POWER_Level  '' ?s)) =
            ir_frames (trace ?s) @ transmission code
          \<and> local_calls (trace (mqttCallback config_h hw_online '' POWER_Level  '' ?s)) =
              local_calls (trace ?s)
              @ [SerialLine (''MQTT cmd: '' @ String_toLowerCase (String_trim '' POWER_Level  ''))]
              @ cmd_script [] False code tok
          \<and> (session ?s \<and> (\<forall>n. hw_sock hw_online n) \<longrightarrow>
               published (trace (mqttCallback config_h hw_online '' POWER_Level  '' ?s)) =
                 published (trace ?s) @ [status_msg ?s (''sent:'' @ tok)])"
    by - (elim conjE, assumption)
  have d: "ir_frames (trace (mqttCallback config_h hw_online '' POWER_Level  '' ?s))
             = ir_frames (trace ?s) @ transmission IR_POWER_LEVEL"
    using bspec[OF t2 m2] k1 by simp
  from T[of "''frobnicate''" undefined undefined undefined]
  have "map tolower (c_str (String_trim ''frobnicate'')) \<notin> set recognized \<longrightarrow>
        ir_frames (trace (mqttCallback config_h hw_online ''frobnicate'' ?s)) = ir_frames (trace ?s)"
    by - (elim conjE, assumption)
  then have e: "ir_frames (trace (mqttCallback config_h hw_online ''frobnicate'' ?s)) = ir_frames (trace ?s)"
    by (rule mp) (rule k2)
  from T[of "''temp up''" undefined undefined undefined]
  have "map tolower (c_str (String_trim ''temp up'')) \<notin> set recognized \<longrightarrow>
        ir_frames (trace (mqttCallback config_h hw_online ''temp up'' ?s)) = ir_frames (trace ?s)"
    by - (elim conjE, assumption)
  then have f: "ir_frames (trace (mqttCallback config_h hw_online ''temp up'' ?s)) = ir_frames (trace ?s)"
    by (rule mp) (rule k3)
  have w: "list_all isspace '' ''" "list_all isspace ''  ''"
      "\<not> isspace (hd ''POWER_Level'')" "\<not> isspace (last ''POWER_Level'')"
    by (simp_all add: isspace_def)
  from T[of undefined "'' ''" "''  ''" "''POWER_Level''"]
  have "list_all isspace '' '' \<and> list_all isspace ''  ''
        \<and> (''POWER_Level'' = [] \<or> (\<not> isspace (hd ''POWER_Level'') \<and> \<not> isspace (last ''POWER_Level''))) \<longrightarrow>
        String_trim ('' '' @ ''POWER_Level'' @ ''  '') = ''POWER_Level''"
    by - (elim conjE, assumption)
  then have g: "String_trim ('' '' @ ''POWER_Level'' @ ''  '') = ''POWER_Level''"
    by (rule mp) (intro conjI disjI2 w)
  have n: "NUL \<notin> set ''POWER_Level''" by (simp add: NUL_def)
  have lw: "map tolower ''POWER_Level'' = ''power_level''" by code_simp
  have q: "CHR ''a'' \<notin> set ''ABCDEFGHIJKLMNOPQRSTUVWXYZ''" by simp
  have r': "tolower CHR ''a'' = CHR ''a''" by (rule mp[OF r q])
  have a': "ir_frames (trace (handleCommand config_h hw_online ''sleep_timer'' ?s))
       = [(0xFF30CF, 32), (0xFF30CF, 32)]"
    using a h by (simp add: transmission_def IR_SLEEP_TIMER_def)
  have b': "published (trace (handleCommand config_h hw_online ''sleep_timer'' ?s))
       = [([], ''sent:sleep_timer'', True)]"
    using b h by (simp add: status_msg_def)
  have c': "published (trace (mqttCallback config_h hw_online ''  Temp_Up  '' ?s))
       = [([], ''sent:temp_up'', True)]"
    using c h by (simp add: status_msg_def)
  have d': "ir_frames (trace (mqttCallback config_h hw_online '' POWER_Level  '' ?s))
       = [(0xFF00FF, 32), (0xFF00FF, 32)]"
    using d h by (simp add: transmission_def IR_POWER_LEVEL_def)
  have e': "ir_frames (trace (mqttCallback config_h hw_online ''frobnicate'' ?s)) = []"
    using e h by simp
  have f': "ir_frames (trace (mqttCallback config_h hw_online ''temp up'' ?s)) = []"
    using f h by simp
  have i': "String_toLowerCase ''POWER_Level'' = ''power_level''"
    using mp[OF i n] unfolding lw .
  have j': "String_toLowerCase (''POWER_Level'' @ NUL # ''ABC'') = ''power_level'' @ NUL # ''ABC''"
    using mp[OF j n] unfolding lw .
  show ?thesis
    by (intro conjI m h(1)[THEN conjunct1] h(1)[THEN conjunct2] a' b' c' m2 k1 d' k2 e' k3 f' w g n i' j' q r')
qed

lemma unknown_trace:
  assumes "c_str cmd \<notin> set recognized"
  shows "trace (handleCommand cfg hw cmd s) =
     trace s @ [SerialLine (''MQTT cmd: '' @ cmd)]
     @ (if session s \<and> hw_sock hw (tick s) \<and> hw_sock hw (Suc (tick s))
        then [MqttPublish (mqttTopicStatus s) ''error:unknown_cmd'' True] else [])
     @ [SerialLine ''error:unknown_cmd'']"
    and "ir_frames (trace (handleCommand cfg hw cmd s)) = ir_frames (trace s)"
    and "globals (handleCommand cfg hw cmd s) = globals s"
    and "clock (handleCommand cfg hw cmd s) = clock s"
  by (simp_all add: unknown_cmd[OF assms] publishStatus_eq prim_defs globals_def)

lemma c_str_cut: "NUL \<notin> set pre \<Longrightarrow> c_str (pre @ NUL # post) = pre"
proof -
  assume "NUL \<notin> set pre"
  then have "\<forall>x\<in>set pre. x \<noteq> NUL" by auto
  then show ?thesis by (simp add: c_str_def takeWhile_tail takeWhile_eq_all_conv)
qed

text \<open>
  Claim C4, amended. The handler compares as \<^verbatim>\<open>strcmp\<close> does, so what counts is the
  command up to its first NUL. A command that, read this way, is none of the recognised
  ones leaves exactly this behind: the log line of the command, the status
  \<open>error:unknown_cmd\<close> (published when the client is connected at that moment) and the log
  line of the error. No frame is transmitted, no pause is made, no variable of the sketch
  and not the clock changes. The handler is a total function, so there is no fault to
  raise. The empty command is one of them. Every other command transmits. A command
  without NUL is read as it is.
\<close>

theorem unknown_command_reports_error:
  "(c_str cmd \<notin> set recognized \<longrightarrow>
      trace (handleCommand cfg hw cmd s) =
        trace s @ [SerialLine (''MQTT cmd: '' @ cmd)]
        @ (if session s \<and> hw_sock hw (tick s) \<and> hw_sock hw (Suc (tick s))
           then [MqttPublish (mqttTopicStatus s) ''error:unknown_cmd'' True] else [])
        @ [SerialLine ''error:unknown_cmd'']
      \<and> ir_frames (trace (handleCommand cfg hw cmd s)) = ir_frames (trace s)
      \<and> globals (handleCommand cfg hw cmd s) = globals s
      \<and> clock (handleCommand cfg hw cmd s) = clock s)
   \<and> (c_str cmd \<in> set recognized \<longrightarrow>
        ir_frames (trace (handleCommand cfg hw cmd s)) \<noteq> ir_frames (trace s))
   \<and> (NUL \<notin> set cmd \<longrightarrow> c_str cmd = cmd)
   \<and> (NUL \<notin> set cmd \<longrightarrow> c_str (cmd @ NUL # post) = cmd)"
  using unknown_trace[of cmd cfg hw s] recognized_transmits[of cmd cfg hw s]
    c_str_no_NUL[of cmd] c_str_cut[of cmd post]
  by blast

text \<open>
  Against claim C4 as first stated (every token that is not in the recognised set is
  answered with the error and transmits nothing): the token \<open>temp_up\<close> followed by a NUL
  byte is not one of the recognised tokens, and both the handler and the callback
  transmit the temp-up code for it. \<^verbatim>\<open>mqttCallback\<close> appends every byte of the payload, so
  this token does reach the handler.
\<close>

theorem token_followed_by_nul_is_dispatched:
  "''temp_up'' @ [CHR 0x00] \<notin> set recognized
   \<and> ir_frames (trace (handleCommand config_h hw_offline (''temp_up'' @ [CHR 0x00]) power_up))
       = [(0xFF906F, 32), (0xFF906F, 32)]
   \<and> ir_frames (trace (mqttCallback config_h hw_offline (''temp_up'' @ [CHR 0x00]) power_up))
       = [(0xFF906F, 32), (0xFF906F, 32)]"
proof -
  have a: "''temp_up'' @ [CHR 0x00] \<notin> set recognized"
    by (simp add: recognized_def command_table_def)
  have c: "c_str (''temp_up'' @ [CHR 0x00]) = ''temp_up''" by (simp add: c_str_def NUL_def)
  have k: "map tolower (c_str (String_trim (''temp_up'' @ [CHR 0x00]))) = ''temp_up''" by code_simp
  have up: "(''temp_up'', IR_TEMP_UP) \<in> set command_table" by (simp add: command_table_def)
  have t: "trace power_up = []" by (simp add: power_up_def)
  have 1: "ir_frames (trace (handleCommand config_h hw_offline (''temp_up'' @ [CHR 0x00]) power_up))
       = [(0xFF906F, 32), (0xFF906F, 32)]"
    unfolding handle_each(6)[OF c]
    by (simp add: ir_frames_sendCmd transmission_def IR_TEMP_UP_def t prim_defs)
  have 2: "ir_frames (trace (mqttCallback config_h hw_offline (''temp_up'' @ [CHR 0x00]) power_up))
       = [(0xFF906F, 32), (0xFF906F, 32)]"
    unfolding callback_single[OF up k]
    by (simp add: ir_frames_sendCmd transmission_def IR_TEMP_UP_def t prim_defs)
  show ?thesis using a 1 2 by blast
qed

theorem unknown_command_reports_error_witness:
  "c_str ''frobnicate'' \<notin> set recognized \<and> c_str [] \<notin> set recognized
   \<and> trace (handleCommand config_h hw_online ''frobnicate'' (power_up\<lparr>session := True\<rparr>)) =
       [SerialLine ''MQTT cmd: frobnicate'', MqttPublish [] ''error:unknown_cmd'' True,
        SerialLine ''error:unknown_cmd'']
   \<and> trace (handleCommand config_h hw_online [] (power_up\<lparr>session := True\<rparr>)) =
       [SerialLine ''MQTT cmd: '', MqttPublish [] ''error:unknown_cmd'' True,
        SerialLine ''error:unknown_cmd'']
   \<and> c_str (''temp_up'' @ [NUL]) \<in> set recognized
   \<and> ir_frames (trace (handleCommand config_h hw_online (''temp_up'' @ [NUL]) (power_up\<lparr>session := True\<rparr>)))
        \<noteq> ir_frames (trace (power_up\<lparr>session := True\<rparr>))
   \<and> NUL \<notin> set ''temp_up'' \<and> c_str ''temp_up'' = ''temp_up''
   \<and> c_str (''temp_up'' @ NUL # ''xyz'') = ''temp_up''"
proof -
  let ?s = "power_up\<lparr>session := True\<rparr>"
  note T = unknown_command_reports_error[of _ config_h hw_online ?s]
  have a: "c_str ''frobnicate'' \<notin> set recognized" and b: "c_str [] \<notin> set recognized"
    and c: "c_str (''temp_up'' @ [NUL]) \<in> set recognized"
    by (simp_all add: recognized_def command_table_def c_str_def NUL_def)
  have n: "NUL \<notin> set ''temp_up''" by (simp add: NUL_def)
  have h: "session ?s \<and> hw_sock hw_online (tick ?s) \<and> hw_sock hw_online (Suc (tick ?s))"
      "trace ?s = []" "mqttTopicStatus ?s = []"
    by (simp_all add: hw_online_def power_up_def)
  from T[of "''frobnicate''" undefined] a
  have 1: "trace (handleCommand config_h hw_online ''frobnicate'' ?s) =
        trace ?s @ [SerialLine (''MQTT cmd: '' @ ''frobnicate'')]
        @ (if session ?s \<and> hw_sock hw_online (tick ?s) \<and> hw_sock hw_online (Suc (tick ?s))
           then [MqttPublish (mqttTopicStatus ?s) ''error:unknown_cmd'' True] else [])
        @ [SerialLine ''error:unknown_cmd'']"
    by blast
  from T[of "[]" undefined] b
  have 2: "trace (handleCommand config_h hw_online [] ?s) =
        trace ?s @ [SerialLine (''MQTT cmd: '' @ [])]
        @ (if session ?s \<and> hw_sock hw_online (tick ?s) \<and> hw_sock hw_online (Suc (tick ?s))
           then [MqttPublish (mqttTopicStatus ?s) ''error:unknown_cmd'' True] else [])
        @ [SerialLine ''error:unknown_cmd'']"
    by blast
  from T[of "''temp_up'' @ [NUL]" undefined] c
  have 3: "ir_frames (trace (handleCommand config_h hw_online (''temp_up'' @ [NUL]) ?s))
        \<noteq> ir_frames (trace ?s)"
    by blast
  from T[of "''temp_up''" "''xyz''"] n
  have 4: "c_str ''temp_up'' = ''temp_up''" and 5: "c_str (''temp_up'' @ NUL # ''xyz'') = ''temp_up''"
    by blast+
  have e1: "trace (handleCommand config_h hw_online ''frobnicate'' ?s) =
       [SerialLine ''MQTT cmd: frobnicate'', MqttPublish [] ''error:unknown_cmd'' True,
        SerialLine ''error:unknown_cmd'']"
    unfolding 1 using h by simp
  have e2: "trace (handleCommand config_h hw_online [] ?s) =
       [SerialLine ''MQTT cmd: '', MqttPublish [] ''error:unknown_cmd'' True,
        SerialLine ''error:unknown_cmd'']"
    unfolding 2 using h by simp
  show ?thesis
    by (intro conjI a b e1 e2 c 3 n 4 5)
qed

lemma poll_ignored:
  "\<not> btn_accepted hw s \<Longrightarrow> pollRestoreButton cfg hw s = s\<lparr>tick := Suc (tick s)\<rparr>"
  by (auto simp add: btn_accepted_def pollRestoreButton_def digitalRead_def millis_def Let_def)

lemma poll_released:
  "btn_accepted hw s \<Longrightarrow> hw_pin hw (tick s) = HIGH \<Longrightarrow>
   pollRestoreButton cfg hw s =
     s\<lparr>lastBtnState := HIGH, lastBtnChangeMs := millis s, tick := Suc (tick s)\<rparr>"
  by (auto simp add: btn_accepted_def pollRestoreButton_def digitalRead_def millis_def Let_def
        HIGH_def LOW_def)

lemma poll_pressed:
  "btn_accepted hw s \<Longrightarrow> hw_pin hw (tick s) = LOW \<Longrightarrow>
   pollRestoreButton cfg hw s =
     restoreTo45AndOff cfg hw ''button'' (MANUAL_DELAY_MS cfg)
       (Serial_println ''button:restore_pressed''
          (publishStatus hw ''button:restore_pressed'' True
             (s\<lparr>tick := Suc (tick s), lastBtnChangeMs := millis s, lastBtnState := LOW\<rparr>)))"
  by (auto simp add: btn_accepted_def pollRestoreButton_def digitalRead_def millis_def Let_def
        HIGH_def LOW_def)

lemma poll_pressed_frames:
  assumes "btn_accepted hw s" "hw_pin hw (tick s) = LOW"
  shows "ir_frames (trace (pollRestoreButton cfg hw s)) =
           ir_frames (trace s) @ concat (map transmission (restore_codes cfg))"
  unfolding poll_pressed[OF assms]
  by (simp add: ir_frames_restoreTo45AndOff publishStatus_eq)

lemma poll_pressed_local:
  assumes "btn_accepted hw s" "hw_pin hw (tick s) = LOW"
  shows "local_calls (trace (pollRestoreButton cfg hw s)) =
           local_calls (trace s) @ [SerialLine ''button:restore_pressed'']
           @ restore_script cfg [] False ''button''"
  unfolding poll_pressed[OF assms]
  by (simp add: local_restoreTo45AndOff[where t="[]"])

lemma poll_pressed_vars:
  assumes "btn_accepted hw s" "hw_pin hw (tick s) = LOW"
  shows "lastBtnState (pollRestoreButton cfg hw s) = LOW"
    and "lastBtnChangeMs (pollRestoreButton cfg hw s) = millis s"
proof -
  let ?s = "s\<lparr>tick := Suc (tick s), lastBtnChangeMs := millis s, lastBtnState := LOW\<rparr>"
  have g: "globals (pollRestoreButton cfg hw s) = globals ?s"
    unfolding poll_pressed[OF assms] by simp
  show "lastBtnState (pollRestoreButton cfg hw s) = LOW"
    using globals_fields(4)[OF g] by simp
  show "lastBtnChangeMs (pollRestoreButton cfg hw s) = millis s"
    using globals_fields(5)[OF g] by simp
qed

text \<open>
  Claim C6, amended. The poll accepts the level it reads when the level differs from the
  last accepted one and more than the debounce interval has passed since the last accepted
  change; how long the new level has been there does not matter. A level that is not
  accepted changes nothing at that poll. An accepted change to the pressed (low) level
  runs the restore macro once, with tag \<open>button\<close> and the manual pre-delay, after the
  status \<open>button:restore_pressed\<close>; an accepted change to the released level only
  records the level and the time.
\<close>

theorem button_poll_lockout:
  "(\<not> btn_accepted hw s \<longrightarrow> pollRestoreButton cfg hw s = s\<lparr>tick := Suc (tick s)\<rparr>)
   \<and> (btn_accepted hw s \<and> hw_pin hw (tick s) = HIGH \<longrightarrow>
        pollRestoreButton cfg hw s =
          s\<lparr>lastBtnState := HIGH, lastBtnChangeMs := millis s, tick := Suc (tick s)\<rparr>)
   \<and> (btn_accepted hw s \<and> hw_pin hw (tick s) = LOW \<longrightarrow>
        pollRestoreButton cfg hw s =
          restoreTo45AndOff cfg hw ''button'' (MANUAL_DELAY_MS cfg)
            (Serial_println ''button:restore_pressed''
               (publishStatus hw ''button:restore_pressed'' True
                  (s\<lparr>tick := Suc (tick s), lastBtnChangeMs := millis s, lastBtnState := LOW\<rparr>)))
        \<and> ir_frames (trace (pollRestoreButton cfg hw s)) =
            ir_frames (trace s) @ concat (map transmission (restore_codes cfg))
        \<and> local_calls (trace (pollRestoreButton cfg hw s)) =
            local_calls (trace s) @ [SerialLine ''button:restore_pressed'']
            @ restore_script cfg [] False ''button''
        \<and> lastBtnState (pollRestoreButton cfg hw s) = LOW
        \<and> lastBtnChangeMs (pollRestoreButton cfg hw s) = millis s)"
proof (intro conjI impI)
  assume "\<not> btn_accepted hw s"
  then show "pollRestoreButton cfg hw s = s\<lparr>tick := Suc (tick s)\<rparr>"
    by (rule poll_ignored)
next
  assume "btn_accepted hw s \<and> hw_pin hw (tick s) = HIGH"
  then show "pollRestoreButton cfg hw s =
          s\<lparr>lastBtnState := HIGH, lastBtnChangeMs := millis s, tick := Suc (tick s)\<rparr>"
    by (simp add: poll_released)
next
  assume a: "btn_accepted hw s \<and> hw_pin hw (tick s) = LOW"
  then have b: "btn_accepted hw s" and c: "hw_pin hw (tick s) = LOW" by simp_all
  show "pollRestoreButton cfg hw s =
          restoreTo45AndOff cfg hw ''button'' (MANUAL_DELAY_MS cfg)
            (Serial_println ''button:restore_pressed''
               (publishStatus hw ''button:restore_pressed'' True
                  (s\<lparr>tick := Suc (tick s), lastBtnChangeMs := millis s, lastBtnState := LOW\<rparr>)))"
    by (rule poll_pressed[OF b c])
  show "ir_frames (trace (pollRestoreButton cfg hw s)) =
            ir_frames (trace s) @ concat (map transmission (restore_codes cfg))"
    by (rule poll_pressed_frames[OF b c])
  show "local_calls (trace (pollRestoreButton cfg hw s)) =
            local_calls (trace s) @ [SerialLine ''button:restore_pressed'']
            @ restore_script cfg [] False ''button''"
    by (rule poll_pressed_local[OF b c])
  show "lastBtnState (pollRestoreButton cfg hw s) = LOW"
    by (rule poll_pressed_vars(1)[OF b c])
  show "lastBtnChangeMs (pollRestoreButton cfg hw s) = millis s"
    by (rule poll_pressed_vars(2)[OF b c])
qed

lemma glitch_first_poll: "\<not> btn_accepted hw_glitch (power_up\<lparr>clock := 1000\<rparr>)"
  by (simp add: btn_accepted_def hw_glitch_def hw_offline_def power_up_def)

lemma glitch_second_poll:
  "btn_accepted hw_glitch (idle 1 (power_up\<lparr>clock := 1000, tick := 1\<rparr>))"
  "hw_pin hw_glitch (tick (idle 1 (power_up\<lparr>clock := 1000, tick := 1\<rparr>))) = LOW"
  by (simp_all add: btn_accepted_def hw_glitch_def hw_offline_def power_up_def idle_def
        millis_def DEBOUNCE_MS_def LOW_def)

text \<open>
  Against claim C6 as first stated (a level held shorter than the debounce interval never
  triggers the macro): one second after start the pin reads high, as before; one
  millisecond later it reads low. The low level has been there for at most one
  millisecond, and the poll runs the macro.
\<close>

theorem button_glitch_triggers_macro:
  "hw_pin hw_glitch 0 = HIGH \<and> hw_pin hw_glitch 1 = LOW
   \<and> pollRestoreButton config_h hw_glitch (power_up\<lparr>clock := 1000\<rparr>)
       = power_up\<lparr>clock := 1000, tick := 1\<rparr>
   \<and> clock (idle 1 (power_up\<lparr>clock := 1000, tick := 1\<rparr>)) = 1001
   \<and> ir_frames (trace (pollRestoreButton config_h hw_glitch
                          (idle 1 (power_up\<lparr>clock := 1000, tick := 1\<rparr>))))
       = concat (map transmission (restore_codes config_h))
   \<and> concat (map transmission (restore_codes config_h)) \<noteq> []"
proof -
  have 1: "pollRestoreButton config_h hw_glitch (power_up\<lparr>clock := 1000\<rparr>)
             = power_up\<lparr>clock := 1000, tick := 1\<rparr>"
    unfolding poll_ignored[OF glitch_first_poll] by (simp add: power_up_def)
  have 2: "ir_frames (trace (pollRestoreButton config_h hw_glitch
                          (idle 1 (power_up\<lparr>clock := 1000, tick := 1\<rparr>))))
       = concat (map transmission (restore_codes config_h))"
    unfolding poll_pressed_frames[OF glitch_second_poll] by (simp add: idle_def power_up_def)
  have 3: "concat (map transmission (restore_codes config_h)) \<noteq> []"
    by (simp add: restore_codes_def transmission_def)
  show ?thesis
    using 1 2 3 by (simp add: hw_glitch_def hw_offline_def HIGH_def LOW_def idle_def power_up_def)
qed

theorem button_poll_lockout_witness:
  "\<not> btn_accepted hw_glitch (power_up\<lparr>clock := 1000\<rparr>)
   \<and> pollRestoreButton config_h hw_glitch (power_up\<lparr>clock := 1000\<rparr>)
       = (power_up\<lparr>clock := 1000\<rparr>)\<lparr>tick := Suc (tick (power_up\<lparr>clock := 1000\<rparr>))\<rparr>
   \<and> btn_accepted hw_glitch (idle 1 (power_up\<lparr>clock := 1000, tick := 1\<rparr>))
   \<and> hw_pin hw_glitch (tick (idle 1 (power_up\<lparr>clock := 1000, tick := 1\<rparr>))) = LOW
   \<and> lastBtnState (pollRestoreButton config_h hw_glitch
                      (idle 1 (power_up\<lparr>clock := 1000, tick := 1\<rparr>))) = LOW
   \<and> btn_accepted hw_online (power_up\<lparr>lastBtnState := LOW, clock := 1000\<rparr>)
   \<and> hw_pin hw_online (tick (power_up\<lparr>lastBtnState := LOW, clock := 1000\<rparr>)) = HIGH
   \<and> pollRestoreButton config_h hw_online (power_up\<lparr>lastBtnState := LOW, clock := 1000\<rparr>)
       = (power_up\<lparr>lastBtnState := LOW, clock := 1000\<rparr>)
           \<lparr>lastBtnState := HIGH,
            lastBtnChangeMs := millis (power_up\<lparr>lastBtnState := LOW, clock := 1000\<rparr>),
            tick := Suc (tick (power_up\<lparr>lastBtnState := LOW, clock := 1000\<rparr>))\<rparr>"
proof -
  have r: "btn_accepted hw_online (power_up\<lparr>lastBtnState := LOW, clock := 1000\<rparr>)"
      "hw_pin hw_online (tick (power_up\<lparr>lastBtnState := LOW, clock := 1000\<rparr>)) = HIGH"
    by (simp_all add: btn_accepted_def hw_online_def power_up_def millis_def DEBOUNCE_MS_def
          LOW_def HIGH_def)
  have 1: "pollRestoreButton config_h hw_glitch (power_up\<lparr>clock := 1000\<rparr>)
       = (power_up\<lparr>clock := 1000\<rparr>)\<lparr>tick := Suc (tick (power_up\<lparr>clock := 1000\<rparr>))\<rparr>"
    using button_poll_lockout[of hw_glitch "power_up\<lparr>clock := 1000\<rparr>" config_h]
      glitch_first_poll by blast
  have 2: "lastBtnState (pollRestoreButton config_h hw_glitch
                      (idle 1 (power_up\<lparr>clock := 1000, tick := 1\<rparr>))) = LOW"
    using button_poll_lockout[of hw_glitch "idle 1 (power_up\<lparr>clock := 1000, tick := 1\<rparr>)" config_h]
      glitch_second_poll by blast
  have 3: "pollRestoreButton config_h hw_online (power_up\<lparr>lastBtnState := LOW, clock := 1000\<rparr>)
       = (power_up\<lparr>lastBtnState := LOW, clock := 1000\<rparr>)
           \<lparr>lastBtnState := HIGH,
            lastBtnChangeMs := millis (power_up\<lparr>lastBtnState := LOW, clock := 1000\<rparr>),
            tick := Suc (tick (power_up\<lparr>lastBtnState := LOW, clock := 1000\<rparr>))\<rparr>"
    using button_poll_lockout[of hw_online "power_up\<lparr>lastBtnState := LOW, clock := 1000\<rparr>" config_h]
      r by blast
  show ?thesis
    using glitch_first_poll glitch_second_poll r 1 2 3 by blast
qed

section \<open>Facts about whole rounds of the loop\<close>

lemma session_log_simps [simp]:
  "session_log [] = []" "session_log (e # es) = mark_of e @ session_log es"
  "session_log (xs @ ys) = session_log xs @ session_log ys"
  by (simp_all add: session_log_def)

lemma boot_runs_simps [simp]:
  "boot_runs [] = 0"
  "boot_runs (e # es) = (if e = SerialLine ''restore:start:boot_powerloss'' then 1 else 0) + boot_runs es"
  "boot_runs (xs @ ys) = boot_runs xs + boot_runs ys"
  by (simp_all add: boot_runs_def)

lemma session_log_local: "session_log (local_calls tr) = session_log tr"
  by (induction tr) (auto elim: is_pause.elims is_publish.elims)

lemma boot_runs_local: "boot_runs (local_calls tr) = boot_runs tr"
  by (induction tr) (auto elim: is_pause.elims is_publish.elims)

lemma marks_concat_replicate [simp]:
  "session_log xs = [] \<Longrightarrow> session_log (concat (replicate n xs)) = []"
  "boot_runs xs = 0 \<Longrightarrow> boot_runs (concat (replicate n xs)) = 0"
  by (induction n) simp_all

lemma marks_cmd_script [simp]:
  "session_log (cmd_script t False code tag) = []"
  "boot_runs (cmd_script t False code tag) = 0"
  by (simp_all add: cmd_script_def)

lemma marks_restore_script:
  "session_log (restore_script cfg t False tag) = []"
  "boot_runs (restore_script cfg t False tag) = (if tag = ''boot_powerloss'' then 1 else 0)"
  by (simp_all add: restore_script_def)

lemma quiet_refl [simp]: "quiet_step s s"
  by (simp add: quiet_step_def)

lemma quiet_trans: "quiet_step a b \<Longrightarrow> quiet_step b c \<Longrightarrow> quiet_step a c"
  by (simp add: quiet_step_def)

lemma quiet_emit:
  "mark_of e = [] \<Longrightarrow> e \<noteq> SerialLine ''restore:start:boot_powerloss'' \<Longrightarrow> quiet_step s (emit e s)"
  by (simp add: quiet_step_def emit_def)

lemma quiet_prims [simp]:
  "quiet_step s (delay ms s)" "quiet_step s (yield s)" "quiet_step s (idle dt s)"
  "quiet_step s (s\<lparr>tick := n\<rparr>)"
  by (simp_all add: quiet_step_def prim_defs idle_def)

lemma quiet_publishStatus [simp]: "quiet_step s (publishStatus hw msg retain s)"
  by (simp add: quiet_step_def publishStatus_eq)

lemma quiet_via_local:
  assumes "local_calls (trace s') = local_calls (trace s) @ xs"
    and "session_log xs = []" and "boot_runs xs = 0"
    and "globals s' = globals s" and "session s' \<longrightarrow> session s"
  shows "quiet_step s s'"
proof -
  have "session_log (trace s') = session_log (local_calls (trace s'))"
    by (simp only: session_log_local)
  also have "\<dots> = session_log (trace s)"
    unfolding assms(1) using assms(2) by (simp add: session_log_local)
  finally have 1: "session_log (trace s') = session_log (trace s)" .
  have "boot_runs (trace s') = boot_runs (local_calls (trace s'))"
    by (simp only: boot_runs_local)
  also have "\<dots> = boot_runs (trace s)"
    unfolding assms(1) using assms(3) by (simp add: boot_runs_local)
  finally have 2: "boot_runs (trace s') = boot_runs (trace s)" .
  show ?thesis
    unfolding quiet_step_def
    using 1 2 globals_fields(8,10,11)[OF assms(4)] assms(5) by simp
qed

lemma quiet_sendCmd [simp]: "quiet_step s (sendCmd cfg hw code tag s)"
  by (rule quiet_via_local[where xs="cmd_script [] False code tag"])
     (simp_all add: session_sendCmd)

lemma session_restore_mono:
  "session (restoreTo45AndOff cfg hw tag pre s) \<longrightarrow> session s"
  using off_restoreTo45AndOff[of s cfg hw tag pre "[]"] by blast

lemma quiet_restore:
  "tag \<noteq> ''boot_powerloss'' \<Longrightarrow> quiet_step s (restoreTo45AndOff cfg hw tag pre s)"
  by (rule quiet_via_local[where xs="restore_script cfg [] False tag"])
     (simp_all add: local_restoreTo45AndOff[where t="[]"] marks_restore_script session_restore_mono)

lemma quiet_Serial:
  "txt \<noteq> ''HA discovery published (retained).'' \<Longrightarrow> txt \<noteq> ''restore:start:boot_powerloss'' \<Longrightarrow>
   quiet_step s (Serial_println txt s)"
  by (simp add: quiet_step_def prim_defs)

lemma quiet_if: "quiet_step x a \<Longrightarrow> quiet_step x b \<Longrightarrow> quiet_step x (if c then a else b)"
  by simp

lemma quiet_unknown:
  "quiet_step s (Serial_println ''error:unknown_cmd'' (publishStatus hw ''error:unknown_cmd'' True s))"
  by (rule quiet_trans[OF quiet_publishStatus]) (rule quiet_Serial, simp_all)

lemma quiet_handleCommand [simp]: "quiet_step s (handleCommand cfg hw cmd s)"
proof -
  let ?s = "Serial_println (''MQTT cmd: '' @ cmd) s"
  have 0: "quiet_step s ?s" by (rule quiet_Serial) simp_all
  have r: "quiet_step x (restoreTo45AndOff cfg hw ''mqtt'' (MANUAL_DELAY_MS cfg) x)" for x
    by (rule quiet_restore) simp
  have b: "quiet_step x
     (if String_equals cmd ''power_toggle'' then sendCmd cfg hw IR_POWER_TOGGLE ''power_toggle'' x
      else if String_equals cmd ''power_level'' then sendCmd cfg hw IR_POWER_LEVEL ''power_level'' x
      else if String_equals cmd ''oscillation_toggle''
           then sendCmd cfg hw IR_OSCILLATION_TOGGLE ''oscillation_toggle'' x
      else if String_equals cmd ''sleep_timer'' then sendCmd cfg hw IR_SLEEP_TIMER ''sleep_timer'' x
      else if String_equals cmd ''temp_mode'' then sendCmd cfg hw IR_TEMP_MODE ''temp_mode'' x
      else if String_equals cmd ''temp_up'' then sendCmd cfg hw IR_TEMP_UP ''temp_up'' x
      else if String_equals cmd ''temp_down'' then sendCmd cfg hw IR_TEMP_DOWN ''temp_down'' x
      else if String_equals cmd ''restore_state''
           then restoreTo45AndOff cfg hw ''mqtt'' (MANUAL_DELAY_MS cfg) x
      else Serial_println ''error:unknown_cmd''
             (publishStatus hw ''error:unknown_cmd'' True x))" for x
    by (intro quiet_if quiet_sendCmd r quiet_unknown)
  show ?thesis
    unfolding handleCommand_def Let_def by (rule quiet_trans[OF 0 b])
qed

lemma quiet_mqtt_loop [simp]: "quiet_step s (mqtt_loop cfg hw s)"
proof (cases "session s \<and> hw_sock hw (tick s)")
  case False
  then have c: "(session s \<and> hw_sock hw (tick s)) = False" by simp
  have e: "mqtt_loop cfg hw s = s\<lparr>session := False, tick := Suc (tick s)\<rparr>"
    unfolding mqtt_loop_def mqtt_connected_def Let_def c by simp
  show ?thesis unfolding e by (simp add: quiet_step_def)
next
  case True
  let ?s = "s\<lparr>session := True, tick := Suc (Suc (tick s))\<rparr>"
  have q: "quiet_step s ?s" using True by (simp add: quiet_step_def)
  show ?thesis
  proof (cases "hw_rx hw (Suc (tick s))")
    case None
    with True have e: "mqtt_loop cfg hw s = ?s"
      by (simp add: mqtt_loop_def mqtt_connected_def Let_def)
    show ?thesis unfolding e by (rule q)
  next
    case (Some p)
    with True have e: "mqtt_loop cfg hw s =
        handleCommand cfg hw (String_toLowerCase (String_trim p)) ?s"
      by (simp add: mqtt_loop_def mqtt_connected_def Let_def mqttCallback_def)
    show ?thesis unfolding e by (rule quiet_trans[OF q quiet_handleCommand])
  qed
qed


lemma quiet_parts: "quiet_step s s' \<Longrightarrow> log_quiet s s' \<and> boot_quiet s s'"
  by (simp add: quiet_step_def log_quiet_def boot_quiet_def)

lemma boot_quiet_step: "boot_quiet s s' \<Longrightarrow> boot_step s s'"
  by (simp add: boot_quiet_def boot_step_def boot_budget_def)

lemma boot_quiet_refl [simp]: "boot_quiet s s"
  by (simp add: boot_quiet_def)

lemma boot_quiet_trans: "boot_quiet a b \<Longrightarrow> boot_quiet b c \<Longrightarrow> boot_quiet a c"
  by (simp add: boot_quiet_def)

lemma log_quiet_trans: "log_quiet a b \<Longrightarrow> log_quiet b c \<Longrightarrow> log_quiet a c"
  by (simp add: log_quiet_def)

lemma boot_step_trans: "boot_step a b \<Longrightarrow> boot_step b c \<Longrightarrow> boot_step a c"
  by (simp add: boot_step_def)

lemma quiet_loop_alive [simp]: "quiet_step s (loop_alive hw s)"
  by (simp add: loop_alive_def wifi_connected_def mqtt_connected_def Let_def prim_defs
        quiet_step_def)

lemma quiet_ensureWiFi [simp]: "quiet_step s (ensureWiFiNonBlocking cfg hw s)"
  by (simp add: ensureWiFi_eq quiet_step_def)

lemma quiet_loop_ota [simp]: "quiet_step s (loop_ota hw s)"
  by (simp add: loop_ota_def wifi_connected_def setupOTA_def Let_def prim_defs quiet_step_def)

lemma quiet_poll [simp]: "quiet_step s (pollRestoreButton cfg hw s)"
proof (cases "btn_accepted hw s")
  case False
  show ?thesis unfolding poll_ignored[OF False] by simp
next
  case True
  show ?thesis
  proof (cases "hw_pin hw (tick s) = HIGH")
    case h: True
    show ?thesis unfolding poll_released[OF True h] by (simp add: quiet_step_def)
  next
    case False
    then have l: "hw_pin hw (tick s) = LOW" by (simp add: HIGH_def LOW_def)
    let ?a = "s\<lparr>tick := Suc (tick s), lastBtnChangeMs := millis s, lastBtnState := LOW\<rparr>"
    let ?b = "Serial_println ''button:restore_pressed'' (publishStatus hw ''button:restore_pressed'' True ?a)"
    have 1: "quiet_step s ?a" by (simp add: quiet_step_def)
    have 2: "quiet_step ?a ?b"
      by (rule quiet_trans[OF quiet_publishStatus]) (rule quiet_Serial, simp_all)
    have 3: "quiet_step ?b (restoreTo45AndOff cfg hw ''button'' (MANUAL_DELAY_MS cfg) ?b)"
      by (rule quiet_restore) simp
    show ?thesis
      unfolding poll_pressed[OF True l] by (rule quiet_trans[OF quiet_trans[OF 1 2] 3])
  qed
qed

lemma quiet_setAvailability [simp]: "quiet_step s (setAvailability hw st s)"
  by (simp add: quiet_step_def setAvailability_eq)

lemma ensureMQTT_quiet:
  "\<not> (mqtt_due hw s \<and> hw_connack hw (Suc (Suc (tick s)))) \<Longrightarrow>
   quiet_step s (ensureMQTTNonBlocking cfg hw s)"
proof (cases "mqtt_due hw s")
  case False
  then show ?thesis by (simp add: ensureMQTT_idle quiet_step_def)
next
  case True
  assume "\<not> (mqtt_due hw s \<and> hw_connack hw (Suc (Suc (tick s))))"
  with True have no: "\<not> hw_connack hw (Suc (Suc (tick s)))" by simp
  show ?thesis unfolding ensureMQTT_refused[OF True no] by (simp add: quiet_step_def)
qed

lemma ensureMQTT_connects:
  assumes due: "mqtt_due hw s" and ok: "hw_connack hw (Suc (Suc (tick s)))"
  shows "session_log (trace (ensureMQTTNonBlocking cfg hw s)) = session_log (trace s) @ [Connected]"
    and "\<not> discoveryPublished (ensureMQTTNonBlocking cfg hw s)"
    and "boot_quiet s (ensureMQTTNonBlocking cfg hw s)"
proof -
  let ?a = "s\<lparr>lastMqttAttemptMs := millis s, session := True, tick := Suc (Suc (Suc (tick s))),
              trace := trace s @ [SerialLine (''MQTT: connecting to '' @ MQTT_HOST cfg @ '':''
                                                @ decimal (unat (MQTT_PORT cfg))),
                                  MqttConnect (mqttTopicAvail s) AVAIL_OFFLINE True,
                                  SerialLine ''MQTT: connected'',
                                  MqttSubscribe (mqttTopicCmd s)]\<rparr>"
  let ?b = "publishStatus hw ''online'' True (setAvailability hw AVAIL_ONLINE ?a)"
  have e: "ensureMQTTNonBlocking cfg hw s = ?b\<lparr>discoveryPublished := False\<rparr>"
    by (rule ensureMQTT_accepted[OF due ok])
  have q: "quiet_step ?a ?b"
    by (rule quiet_trans[OF quiet_setAvailability quiet_publishStatus])
  have a: "session_log (trace ?a) = session_log (trace s) @ [Connected]"
      "boot_runs (trace ?a) = boot_runs (trace s)"
      "bootRestoreScheduled ?a = bootRestoreScheduled s" "bootRestoreAtMs ?a = bootRestoreAtMs s"
    by simp_all
  show "session_log (trace (ensureMQTTNonBlocking cfg hw s)) = session_log (trace s) @ [Connected]"
    unfolding e using q a(1) by (simp add: quiet_step_def)
  show "\<not> discoveryPublished (ensureMQTTNonBlocking cfg hw s)"
    unfolding e by simp
  show "boot_quiet s (ensureMQTTNonBlocking cfg hw s)"
    unfolding e using q a(2,3,4) by (simp add: quiet_step_def boot_quiet_def)
qed

lemma boot_quiet_ensureMQTT [simp]: "boot_quiet s (ensureMQTTNonBlocking cfg hw s)"
  using ensureMQTT_connects(3) ensureMQTT_quiet quiet_parts by blast

lemma quiet_mqttPublish [simp]: "quiet_step s (mqttPublish hw topic payload retain s)"
  by (simp add: mqttPublish_def mqtt_publish_def mqtt_connected_def Let_def prim_defs
        quiet_step_def)

lemma quiet_publishButtonDiscovery [simp]:
  "quiet_step s (publishButtonDiscovery hw object_id name payload_press s)"
  unfolding publishButtonDiscovery_def Let_def by (rule quiet_mqttPublish)

lemma quiet_publishStatusSensorDiscovery [simp]:
  "quiet_step s (publishStatusSensorDiscovery hw s)"
  unfolding publishStatusSensorDiscovery_def Let_def by (rule quiet_mqttPublish)

lemma publishAllDiscovery_shape:
  "\<exists>s'. quiet_step s s' \<and>
         publishAllDiscovery hw s = Serial_println ''HA discovery published (retained).'' s'"
proof -
  have "quiet_step s (publishStatus hw ''discovery:published'' True
     (publishButtonDiscovery hw ''ir_btn_restore_45_off_01'' ''Restore 45C + OFF'' ''restore_state''
     (publishButtonDiscovery hw ''ir_btn_temp_down_01'' ''IR Temp Down'' ''temp_down''
     (publishButtonDiscovery hw ''ir_btn_temp_up_01'' ''IR Temp Up'' ''temp_up''
     (publishButtonDiscovery hw ''ir_btn_temp_mode_01'' ''IR Temp Mode'' ''temp_mode''
     (publishButtonDiscovery hw ''ir_btn_sleep_timer_01'' ''IR Sleep Timer'' ''sleep_timer''
     (publishButtonDiscovery hw ''ir_btn_osc_toggle_01'' ''IR Oscillation Toggle'' ''oscillation_toggle''
     (publishButtonDiscovery hw ''ir_btn_power_level_01'' ''IR Power Level'' ''power_level''
     (publishButtonDiscovery hw ''ir_btn_power_toggle_01'' ''IR Power Toggle'' ''power_toggle''
     (publishStatusSensorDiscovery hw s))))))))))"
    by (intro quiet_trans[OF _ quiet_publishStatus] quiet_trans[OF _ quiet_publishButtonDiscovery]
          quiet_publishStatusSensorDiscovery)
  then show ?thesis
    unfolding publishAllDiscovery_def Let_def by blast
qed

lemma loop_discovery_skips: "discoveryPublished s \<Longrightarrow> loop_discovery hw s = s"
  by (simp add: loop_discovery_def)

lemma loop_discovery_publishes:
  assumes "\<not> discoveryPublished s"
  shows "session_log (trace (loop_discovery hw s)) = session_log (trace s) @ [Discovered]"
    and "discoveryPublished (loop_discovery hw s)"
    and "boot_quiet s (loop_discovery hw s)"
    and "session (loop_discovery hw s) \<longrightarrow> session s"
proof -
  obtain a where a: "quiet_step s a"
      "publishAllDiscovery hw s = Serial_println ''HA discovery published (retained).'' a"
    using publishAllDiscovery_shape by blast
  let ?b = "(Serial_println ''HA discovery published (retained).'' a)\<lparr>discoveryPublished := True\<rparr>"
  let ?c = "publishStatus hw ''ready'' True
              (publishStatus hw (''boot:reset_reason:'' @ resetReasonToString (hw_reset_reason hw)) True ?b)"
  have e: "loop_discovery hw s = ?c"
    using assms by (simp add: loop_discovery_def Let_def a(2))
  have q: "quiet_step ?b ?c"
    by (rule quiet_trans[OF quiet_publishStatus quiet_publishStatus])
  have b: "session_log (trace ?b) = session_log (trace s) @ [Discovered]"
      "boot_runs (trace ?b) = boot_runs (trace s)" "discoveryPublished ?b"
      "bootRestoreScheduled ?b = bootRestoreScheduled s" "bootRestoreAtMs ?b = bootRestoreAtMs s"
      "session ?b \<longrightarrow> session s"
    using a(1) by (simp_all add: quiet_step_def prim_defs)
  show "session_log (trace (loop_discovery hw s)) = session_log (trace s) @ [Discovered]"
    unfolding e using q b(1) by (simp add: quiet_step_def)
  show "discoveryPublished (loop_discovery hw s)"
    unfolding e using q b(3) by (simp add: quiet_step_def)
  show "boot_quiet s (loop_discovery hw s)"
    unfolding e using q b(2,4,5) by (simp add: quiet_step_def boot_quiet_def)
  show "session (loop_discovery hw s) \<longrightarrow> session s"
    unfolding e using q b(6) by (simp add: quiet_step_def)
qed


lemma loop_session_eq:
  "loop_session cfg hw s =
     (if session s \<and> hw_sock hw (tick s)
      then loop_discovery hw (mqtt_loop cfg hw (s\<lparr>session := True, tick := Suc (tick s)\<rparr>))
      else s\<lparr>session := False, tick := Suc (tick s)\<rparr>)"
  by (simp add: loop_session_def mqtt_connected_def Let_def)

lemma boot_step_refl [simp]: "boot_step s s"
  by (simp add: boot_step_def)

lemma boot_quiet_loop_discovery [simp]: "boot_quiet s (loop_discovery hw s)"
  using loop_discovery_publishes(3)[of s hw] loop_discovery_skips[of s hw]
  by (cases "discoveryPublished s") simp_all

lemma boot_quiet_loop_session [simp]: "boot_quiet s (loop_session cfg hw s)"
proof (cases "session s \<and> hw_sock hw (tick s)")
  case False
  then have c: "(session s \<and> hw_sock hw (tick s)) = False" by simp
  show ?thesis unfolding loop_session_eq c by (simp add: boot_quiet_def)
next
  case True
  then have c: "(session s \<and> hw_sock hw (tick s)) = True" by simp
  let ?a = "s\<lparr>session := True, tick := Suc (tick s)\<rparr>"
  have 1: "boot_quiet s ?a" by (simp add: boot_quiet_def)
  have 2: "boot_quiet ?a (mqtt_loop cfg hw ?a)"
    using quiet_parts[OF quiet_mqtt_loop] by blast
  show ?thesis
    unfolding loop_session_eq c if_True
    by (rule boot_quiet_trans[OF boot_quiet_trans[OF 1 2] boot_quiet_loop_discovery])
qed

lemma boot_quiet_before_check [simp]: "boot_quiet s (loop_before_boot_check cfg hw s)"
proof -
  have q: "boot_quiet a (f a)" if "quiet_step a (f a)" for a and f :: "state \<Rightarrow> state"
    using quiet_parts[OF that] by blast
  show ?thesis
    unfolding loop_before_boot_check_def
    by (intro boot_quiet_trans[OF _ boot_quiet_loop_session]
              boot_quiet_trans[OF _ boot_quiet_ensureMQTT]
              boot_quiet_trans[OF _ q[of _ "loop_ota hw"]]
              boot_quiet_trans[OF _ q[of _ "ensureWiFiNonBlocking cfg hw"]]
              q[of _ "loop_alive hw"]
              quiet_loop_ota quiet_ensureWiFi quiet_loop_alive)
qed

lemma loop_split:
  "loop cfg hw s =
     delay 1 (pollRestoreButton cfg hw (loop_bootRestore cfg hw (loop_before_boot_check cfg hw s)))"
  by (simp add: loop_def Let_def loop_before_boot_check_def)

lemma restore_marks:
  "session_log (trace (restoreTo45AndOff cfg hw tag pre s)) = session_log (trace s)"
  "boot_runs (trace (restoreTo45AndOff cfg hw tag pre s)) =
     boot_runs (trace s) + (if tag = ''boot_powerloss'' then 1 else 0)"
proof -
  have "session_log (trace (restoreTo45AndOff cfg hw tag pre s))
          = session_log (local_calls (trace (restoreTo45AndOff cfg hw tag pre s)))"
    by (simp only: session_log_local)
  then show "session_log (trace (restoreTo45AndOff cfg hw tag pre s)) = session_log (trace s)"
    by (simp add: local_restoreTo45AndOff[where t="[]"] marks_restore_script session_log_local)
  have "boot_runs (trace (restoreTo45AndOff cfg hw tag pre s))
          = boot_runs (local_calls (trace (restoreTo45AndOff cfg hw tag pre s)))"
    by (simp only: boot_runs_local)
  then show "boot_runs (trace (restoreTo45AndOff cfg hw tag pre s)) =
     boot_runs (trace s) + (if tag = ''boot_powerloss'' then 1 else 0)"
    by (simp add: local_restoreTo45AndOff[where t="[]"] marks_restore_script boot_runs_local)
qed

lemma loop_bootRestore_runs:
  assumes "bootRestoreScheduled s" "bootRestoreAtMs s \<le> millis s"
  shows "boot_runs (trace (loop_bootRestore cfg hw s)) = boot_runs (trace s) + 1"
    and "\<not> bootRestoreScheduled (loop_bootRestore cfg hw s)"
    and "bootRestoreAtMs (loop_bootRestore cfg hw s) = bootRestoreAtMs s"
    and "log_quiet s (loop_bootRestore cfg hw s)"
    and "ir_frames (trace (loop_bootRestore cfg hw s)) =
           ir_frames (trace s) @ concat (map transmission (restore_codes cfg))"
    and "\<exists>s'. \<not> bootRestoreScheduled s' \<and>
           loop_bootRestore cfg hw s = restoreTo45AndOff cfg hw ''boot_powerloss'' 0 s'"
proof -
  let ?p = "if session s \<and> hw_sock hw (tick s)
        then publishStatus hw ''boot:powerloss_restore:run'' True
               (s\<lparr>bootRestoreScheduled := False, session := True, tick := Suc (tick s)\<rparr>)
        else s\<lparr>bootRestoreScheduled := False, session := False, tick := Suc (tick s)\<rparr>"
  have e: "loop_bootRestore cfg hw s = restoreTo45AndOff cfg hw ''boot_powerloss'' 0 ?p"
    by (rule loop_bootRestore_fires[OF assms])
  have p: "session_log (trace ?p) = session_log (trace s)" "boot_runs (trace ?p) = boot_runs (trace s)"
      "\<not> bootRestoreScheduled ?p" "bootRestoreAtMs ?p = bootRestoreAtMs s"
      "discoveryPublished ?p = discoveryPublished s" "session ?p \<longrightarrow> session s"
      "ir_frames (trace ?p) = ir_frames (trace s)"
    by (simp_all add: publishStatus_eq)
  note g = globals_restoreTo45AndOff[of cfg hw "''boot_powerloss''" 0 ?p]
  show "boot_runs (trace (loop_bootRestore cfg hw s)) = boot_runs (trace s) + 1"
    unfolding e restore_marks using p(2) by simp
  show "\<not> bootRestoreScheduled (loop_bootRestore cfg hw s)"
    unfolding e globals_fields(10)[OF g] by (rule p(3))
  show "bootRestoreAtMs (loop_bootRestore cfg hw s) = bootRestoreAtMs s"
    unfolding e globals_fields(11)[OF g] by (rule p(4))
  show "log_quiet s (loop_bootRestore cfg hw s)"
    unfolding e log_quiet_def restore_marks globals_fields(8)[OF g]
    using p(1,5,6) session_restore_mono[of cfg hw "''boot_powerloss''" 0 ?p] by blast
  show "ir_frames (trace (loop_bootRestore cfg hw s)) =
           ir_frames (trace s) @ concat (map transmission (restore_codes cfg))"
    unfolding e ir_frames_restoreTo45AndOff p(7) by (rule refl)
  show "\<exists>s'. \<not> bootRestoreScheduled s' \<and>
           loop_bootRestore cfg hw s = restoreTo45AndOff cfg hw ''boot_powerloss'' 0 s'"
    using e p(3) by blast
qed

lemma log_quiet_refl [simp]: "log_quiet s s"
  by (simp add: log_quiet_def)

lemma log_quiet_loop_bootRestore [simp]: "log_quiet s (loop_bootRestore cfg hw s)"
proof (cases "bootRestoreScheduled s \<and> bootRestoreAtMs s \<le> millis s")
  case True
  then show ?thesis using loop_bootRestore_runs(4) by blast
next
  case False
  then show ?thesis by (simp add: loop_bootRestore_waits)
qed

lemma boot_step_loop_bootRestore [simp]: "boot_step s (loop_bootRestore cfg hw s)"
proof (cases "bootRestoreScheduled s \<and> bootRestoreAtMs s \<le> millis s")
  case True
  then have a: "bootRestoreScheduled s" "bootRestoreAtMs s \<le> millis s" by simp_all
  show ?thesis
    unfolding boot_step_def boot_budget_def
    using loop_bootRestore_runs(1,2,3)[OF a, of cfg hw] a(1) by simp
next
  case False
  then show ?thesis by (simp add: loop_bootRestore_waits)
qed

lemma boot_step_loop [simp]: "boot_step s (loop cfg hw s)"
proof -
  have q: "boot_step a (f a)" if "quiet_step a (f a)" for a and f :: "state \<Rightarrow> state"
    using quiet_parts[OF that] boot_quiet_step by blast
  show ?thesis
    unfolding loop_split
    by (intro boot_step_trans[OF _ q[of _ "delay 1"]]
              boot_step_trans[OF _ q[of _ "pollRestoreButton cfg hw"]]
              boot_step_trans[OF _ boot_step_loop_bootRestore]
              boot_quiet_step[OF boot_quiet_before_check]
              quiet_prims quiet_poll)
qed

lemma loop_keeps_trigger:
  "bootRestoreScheduled (loop cfg hw s) =
     (bootRestoreScheduled s \<and> \<not> bootRestoreAtMs s \<le> millis (loop_before_boot_check cfg hw s))"
proof -
  let ?b = "loop_before_boot_check cfg hw s"
  let ?c = "loop_bootRestore cfg hw ?b"
  have b: "bootRestoreScheduled ?b = bootRestoreScheduled s" "bootRestoreAtMs ?b = bootRestoreAtMs s"
    using boot_quiet_before_check[of s cfg hw] by (simp_all add: boot_quiet_def)
  have "quiet_step ?c (delay 1 (pollRestoreButton cfg hw ?c))"
    by (rule quiet_trans[OF quiet_poll quiet_prims(1)])
  then have 1: "bootRestoreScheduled (loop cfg hw s) = bootRestoreScheduled ?c"
    unfolding loop_split by (simp add: quiet_step_def)
  have 2: "bootRestoreScheduled ?c = (bootRestoreScheduled ?b \<and> \<not> bootRestoreAtMs ?b \<le> millis ?b)"
  proof (cases "bootRestoreScheduled ?b \<and> bootRestoreAtMs ?b \<le> millis ?b")
    case True
    then show ?thesis using loop_bootRestore_runs(2)[of ?b cfg hw] by simp
  next
    case False
    then show ?thesis using loop_bootRestore_waits[OF False, of cfg hw] by auto
  qed
  show ?thesis unfolding 1 2 b by (rule refl)
qed

lemma boot_step_run: "boot_step s (run cfg hw dts s)"
proof (induction dts arbitrary: s)
  case Nil
  show ?case by simp
next
  case (Cons dt dts)
  have 1: "boot_step s (idle dt s)" using quiet_parts[OF quiet_prims(3)] boot_quiet_step by blast
  have 2: "boot_step (idle dt s) (loop cfg hw (idle dt s))" by simp
  show ?case
    using boot_step_trans[OF boot_step_trans[OF 1 2] Cons.IH] by simp
qed

lemma setup_facts:
  "clock (setup_ino cfg hw s) = clock s + 200"
  "bootRestoreAtMs (setup_ino cfg hw s) =
     (if shouldRunRestoreOnBoot (hw_reset_reason hw) then clock s + 200 + BOOT_DELAY_MS cfg
      else bootRestoreAtMs s)"
  "boot_runs (trace (setup_ino cfg hw s)) = boot_runs (trace s)"
  "log_quiet s (setup_ino cfg hw s)"
proof -
  have c: "clock (emit e x) = clock x" "clock (delay n x) = clock x + n"
      "clock (Serial_println t x) = clock x" "clock (ensureWiFiNonBlocking cfg hw x) = clock x"
      for e n t x
    by (simp_all add: prim_defs ensureWiFi_eq)
  have a: "bootRestoreAtMs (emit e x) = bootRestoreAtMs x" "bootRestoreAtMs (delay n x) = bootRestoreAtMs x"
      "bootRestoreAtMs (Serial_println t x) = bootRestoreAtMs x"
      "bootRestoreAtMs (ensureWiFiNonBlocking cfg hw x) = bootRestoreAtMs x"
      for e n t x
    by (simp_all add: prim_defs ensureWiFi_eq)
  have r: "boot_runs (trace (emit (LibCall l) x)) = boot_runs (trace x)"
      "boot_runs (trace (delay n x)) = boot_runs (trace x)"
      "boot_runs (trace (Serial_println t x)) =
         boot_runs (trace x) + (if t = ''restore:start:boot_powerloss'' then 1 else 0)"
      "boot_runs (trace (ensureWiFiNonBlocking cfg hw x)) = boot_runs (trace x)"
      "boot_runs (trace (buildMqttTopics cfg x)) = boot_runs (trace x)"
      for l n t x
    by (simp_all add: prim_defs ensureWiFi_eq)
  have l: "session_log (trace (emit (LibCall l) x)) = session_log (trace x)"
      "session_log (trace (delay n x)) = session_log (trace x)"
      "session_log (trace (Serial_println t x)) =
         session_log (trace x) @ (if t = ''HA discovery published (retained).'' then [Discovered] else [])"
      "session_log (trace (ensureWiFiNonBlocking cfg hw x)) = session_log (trace x)"
      "session_log (trace (buildMqttTopics cfg x)) = session_log (trace x)"
      for l n t x
    by (simp_all add: prim_defs ensureWiFi_eq)
  have d: "discoveryPublished (emit e x) = discoveryPublished x"
      "discoveryPublished (delay n x) = discoveryPublished x"
      "discoveryPublished (Serial_println t x) = discoveryPublished x"
      "discoveryPublished (ensureWiFiNonBlocking cfg hw x) = discoveryPublished x"
      "session (emit e x) = session x" "session (delay n x) = session x"
      "session (Serial_println t x) = session x"
      "session (ensureWiFiNonBlocking cfg hw x) = session x"
      for e n t x
    by (simp_all add: prim_defs ensureWiFi_eq)
  show "clock (setup_ino cfg hw s) = clock s + 200"
    unfolding setup_ino_def Let_def by (simp add: c millis_def)
  show "bootRestoreAtMs (setup_ino cfg hw s) =
     (if shouldRunRestoreOnBoot (hw_reset_reason hw) then clock s + 200 + BOOT_DELAY_MS cfg
      else bootRestoreAtMs s)"
    unfolding setup_ino_def Let_def by (simp add: a c millis_def)
  show "boot_runs (trace (setup_ino cfg hw s)) = boot_runs (trace s)"
    unfolding setup_ino_def Let_def by (simp add: r)
  show "log_quiet s (setup_ino cfg hw s)"
    unfolding setup_ino_def Let_def log_quiet_def by (simp add: l d)
qed

lemma boot_facts:
  "bootRestoreScheduled (boot cfg hw) = shouldRunRestoreOnBoot (hw_reset_reason hw)"
  "boot_runs (trace (boot cfg hw)) = 0"
  "shouldRunRestoreOnBoot (hw_reset_reason hw) \<Longrightarrow>
     bootRestoreAtMs (boot cfg hw) = millis (boot cfg hw) + BOOT_DELAY_MS cfg"
  "millis (boot cfg hw) = 200"
  "session_log (trace (boot cfg hw)) = []" "\<not> discoveryPublished (boot cfg hw)"
  "\<not> session (boot cfg hw)"
  using setup_facts(4)[of power_up cfg hw]
  by (simp_all add: boot_def bootRestoreScheduled_setup setup_facts millis_def log_quiet_def)
     (simp_all add: power_up_def)

lemma run_budget:
  "boot_runs (trace (run cfg hw dts s)) + (if bootRestoreScheduled (run cfg hw dts s) then 1 else 0)
     = boot_runs (trace s) + (if bootRestoreScheduled s then 1 else 0)"
  using boot_step_run[of s cfg hw dts] by (simp add: boot_step_def boot_budget_def)

text \<open>
  Claim C7. \<^verbatim>\<open>setup()\<close> arms the boot trigger exactly when the reset reason is power-on or
  brownout, with fire-at equal to the time of arming plus the boot delay. Every round of
  \<^verbatim>\<open>loop()\<close> checks the trigger once, by \<open>fire-at \<le> now\<close>, after the connectivity blocks. When
  the check succeeds the trigger is cleared first and the macro then runs once, with tag
  \<open>boot_powerloss\<close> and no pre-delay; when it fails nothing happens. No round arms the
  trigger or moves fire-at. So over any run the boot runs made plus the one pending stay
  what they were: after a start the macro has run for the boot trigger once if the trigger
  was armed and has fired, and not at all otherwise.
\<close>

theorem boot_trigger_fires_once:
  "bootRestoreScheduled (boot cfg hw) = shouldRunRestoreOnBoot (hw_reset_reason hw)
   \<and> boot_runs (trace (boot cfg hw)) = 0
   \<and> (shouldRunRestoreOnBoot (hw_reset_reason hw) \<longrightarrow>
        bootRestoreAtMs (boot cfg hw) = millis (boot cfg hw) + BOOT_DELAY_MS cfg)
   \<and> loop cfg hw s =
       delay 1 (pollRestoreButton cfg hw
                  (loop_bootRestore cfg hw (loop_before_boot_check cfg hw s)))
   \<and> (bootRestoreScheduled s \<and> bootRestoreAtMs s \<le> millis s \<longrightarrow>
        boot_runs (trace (loop_bootRestore cfg hw s)) = boot_runs (trace s) + 1
        \<and> \<not> bootRestoreScheduled (loop_bootRestore cfg hw s)
        \<and> ir_frames (trace (loop_bootRestore cfg hw s)) =
            ir_frames (trace s) @ concat (map transmission (restore_codes cfg))
        \<and> (\<exists>s'. \<not> bootRestoreScheduled s' \<and>
              loop_bootRestore cfg hw s = restoreTo45AndOff cfg hw ''boot_powerloss'' 0 s'))
   \<and> (\<not> (bootRestoreScheduled s \<and> bootRestoreAtMs s \<le> millis s) \<longrightarrow>
        loop_bootRestore cfg hw s = s)
   \<and> bootRestoreScheduled (loop cfg hw s) =
       (bootRestoreScheduled s
        \<and> \<not> bootRestoreAtMs s \<le> millis (loop_before_boot_check cfg hw s))
   \<and> (bootRestoreScheduled (run cfg hw dts s) \<longrightarrow> bootRestoreScheduled s)
   \<and> bootRestoreAtMs (run cfg hw dts s) = bootRestoreAtMs s
   \<and> boot_runs (trace (run cfg hw dts s))
        + (if bootRestoreScheduled (run cfg hw dts s) then 1 else 0)
       = boot_runs (trace s) + (if bootRestoreScheduled s then 1 else 0)
   \<and> boot_runs (trace (run cfg hw dts (boot cfg hw))) =
       (if shouldRunRestoreOnBoot (hw_reset_reason hw)
           \<and> \<not> bootRestoreScheduled (run cfg hw dts (boot cfg hw)) then 1 else 0)
   \<and> boot_runs (trace (run cfg hw dts (boot cfg hw))) \<le> 1"
proof -
  have fire: "bootRestoreScheduled s \<and> bootRestoreAtMs s \<le> millis s \<longrightarrow>
        boot_runs (trace (loop_bootRestore cfg hw s)) = boot_runs (trace s) + 1
        \<and> \<not> bootRestoreScheduled (loop_bootRestore cfg hw s)
        \<and> ir_frames (trace (loop_bootRestore cfg hw s)) =
            ir_frames (trace s) @ concat (map transmission (restore_codes cfg))
        \<and> (\<exists>s'. \<not> bootRestoreScheduled s' \<and>
              loop_bootRestore cfg hw s = restoreTo45AndOff cfg hw ''boot_powerloss'' 0 s')"
    using loop_bootRestore_runs(1,2,5,6)[of s cfg hw] by blast
  have wait: "\<not> (bootRestoreScheduled s \<and> bootRestoreAtMs s \<le> millis s) \<longrightarrow>
        loop_bootRestore cfg hw s = s"
    using loop_bootRestore_waits by blast
  have st: "(bootRestoreScheduled (run cfg hw dts s) \<longrightarrow> bootRestoreScheduled s)"
      "bootRestoreAtMs (run cfg hw dts s) = bootRestoreAtMs s"
    using boot_step_run[of s cfg hw dts] by (simp_all add: boot_step_def)
  have b: "boot_runs (trace (run cfg hw dts (boot cfg hw))) =
       (if shouldRunRestoreOnBoot (hw_reset_reason hw)
           \<and> \<not> bootRestoreScheduled (run cfg hw dts (boot cfg hw)) then 1 else 0)"
    using run_budget[of cfg hw dts "boot cfg hw"] boot_step_run[of "boot cfg hw" cfg hw dts]
    by (auto simp add: boot_facts boot_step_def split: if_splits)
  then have le: "boot_runs (trace (run cfg hw dts (boot cfg hw))) \<le> 1" by simp
  show ?thesis
    using boot_facts(1,2)[of cfg hw] boot_facts(3)[of hw cfg] loop_split[of cfg hw s] fire wait
      loop_keeps_trigger[of cfg hw s] st run_budget[of cfg hw dts s] b le
    by blast
qed


lemma offline_round_clock:
  assumes "\<forall>n. \<not> hw_wifi hw n" "\<not> session s"
  shows "millis (loop_before_boot_check cfg hw s) = millis s"
proof -
  let ?a = "loop_alive hw s"
  let ?b = "ensureWiFiNonBlocking cfg hw ?a"
  let ?c = "loop_ota hw ?b"
  let ?d = "ensureMQTTNonBlocking cfg hw ?c"
  have a: "clock ?a = clock s" "\<not> session ?a"
    using assms(2)
    by (simp_all add: loop_alive_def wifi_connected_def mqtt_connected_def Let_def prim_defs)
  have b: "clock ?b = clock s" "\<not> session ?b"
    using a by (simp_all add: ensureWiFi_eq)
  have c: "clock ?c = clock s" "\<not> session ?c"
    using b assms(1) by (simp_all add: loop_ota_def wifi_connected_def Let_def prim_defs)
  have nd: "\<not> mqtt_due hw ?c" using assms(1) by (simp add: mqtt_due_def)
  have d: "clock ?d = clock s" "\<not> session ?d"
    using c assms(1) by (simp_all add: ensureMQTT_idle[OF nd])
  show ?thesis
    unfolding loop_before_boot_check_def millis_def using d by (simp add: loop_session_eq)
qed

theorem boot_trigger_fires_once_witness:
  "shouldRunRestoreOnBoot (hw_reset_reason hw_offline)
   \<and> bootRestoreAtMs (boot config_h hw_offline) = 15200
   \<and> bootRestoreScheduled (idle 15000 (boot config_h hw_offline))
   \<and> bootRestoreAtMs (idle 15000 (boot config_h hw_offline))
        \<le> millis (idle 15000 (boot config_h hw_offline))
   \<and> boot_runs (trace (loop_bootRestore config_h hw_offline (idle 15000 (boot config_h hw_offline)))) = 1
   \<and> \<not> (bootRestoreScheduled (idle 14999 (boot config_h hw_offline))
          \<and> bootRestoreAtMs (idle 14999 (boot config_h hw_offline))
               \<le> millis (idle 14999 (boot config_h hw_offline)))
   \<and> loop_bootRestore config_h hw_offline (idle 14999 (boot config_h hw_offline))
        = idle 14999 (boot config_h hw_offline)
   \<and> boot_runs (trace (run config_h hw_offline [14999] (boot config_h hw_offline))) = 0
   \<and> boot_runs (trace (run config_h hw_offline [15000] (boot config_h hw_offline))) = 1
   \<and> boot_runs (trace (run config_h hw_offline [15000, 1, 1] (boot config_h hw_offline))) = 1"
proof -
  let ?s0 = "boot config_h hw_offline"
  note T = boot_trigger_fires_once[of config_h hw_offline]
  have r: "shouldRunRestoreOnBoot (hw_reset_reason hw_offline)"
    by (simp add: hw_offline_def shouldRunRestoreOnBoot_def)
  have off: "\<forall>n. \<not> hw_wifi hw_offline n" by (simp add: hw_offline_def)
  have s0: "bootRestoreScheduled ?s0" "bootRestoreAtMs ?s0 = 15200" "millis ?s0 = 200"
      "boot_runs (trace ?s0) = 0" "\<not> session ?s0"
    using r boot_facts(3)[OF r, of config_h]
    by (simp_all add: boot_facts) (simp add: config_h_def)
  have i: "bootRestoreScheduled (idle dt ?s0)" "bootRestoreAtMs (idle dt ?s0) = 15200"
      "millis (idle dt ?s0) = 200 + dt" "boot_runs (trace (idle dt ?s0)) = 0"
      "\<not> session (idle dt ?s0)" for dt
    using s0 by (simp_all add: idle_def millis_def)
  have 1: "bootRestoreScheduled (idle 15000 ?s0)
            \<and> bootRestoreAtMs (idle 15000 ?s0) \<le> millis (idle 15000 ?s0)"
    by (simp add: i)
  have 2: "\<not> (bootRestoreScheduled (idle 14999 ?s0)
            \<and> bootRestoreAtMs (idle 14999 ?s0) \<le> millis (idle 14999 ?s0))"
    by (simp add: i)
  have "boot_runs (trace (loop_bootRestore config_h hw_offline (idle 15000 ?s0)))
          = boot_runs (trace (idle 15000 ?s0)) + 1"
    using T[of "idle 15000 ?s0"] 1 by blast
  then have 3: "boot_runs (trace (loop_bootRestore config_h hw_offline (idle 15000 ?s0))) = 1"
    by (simp add: i)
  have 4: "loop_bootRestore config_h hw_offline (idle 14999 ?s0) = idle 14999 ?s0"
    using T[of "idle 14999 ?s0"] 2 by blast
  have T7: "bootRestoreScheduled (loop config_h hw_offline x) =
       (bootRestoreScheduled x
        \<and> \<not> bootRestoreAtMs x \<le> millis (loop_before_boot_check config_h hw_offline x))" for x
    using T[of x] by blast
  have T8: "bootRestoreScheduled (run config_h hw_offline dts x) \<longrightarrow> bootRestoreScheduled x" for x dts
    using T[of x dts] by blast
  have T11: "boot_runs (trace (run config_h hw_offline dts ?s0)) =
       (if shouldRunRestoreOnBoot (hw_reset_reason hw_offline)
           \<and> \<not> bootRestoreScheduled (run config_h hw_offline dts ?s0) then 1 else 0)" for dts
    using T[of undefined dts] by blast
  have k: "bootRestoreScheduled (loop config_h hw_offline (idle dt ?s0)) = (\<not> 15200 \<le> 200 + dt)" for dt
    unfolding T7 offline_round_clock[OF off i(5)] by (simp add: i)
  have c: "boot_runs (trace (run config_h hw_offline dts ?s0)) =
             (if \<not> bootRestoreScheduled (run config_h hw_offline dts ?s0) then 1 else 0)" for dts
    unfolding T11 using r by simp
  have 5: "boot_runs (trace (run config_h hw_offline [14999] ?s0)) = 0"
    unfolding c by (simp add: k)
  have 6: "boot_runs (trace (run config_h hw_offline [15000] ?s0)) = 1"
    unfolding c by (simp add: k)
  have "\<not> bootRestoreScheduled (run config_h hw_offline [1, 1] (loop config_h hw_offline (idle 15000 ?s0)))"
    using T8[of "[1, 1]" "loop config_h hw_offline (idle 15000 ?s0)"] by (simp add: k)
  then have 7: "boot_runs (trace (run config_h hw_offline [15000, 1, 1] ?s0)) = 1"
    unfolding c by simp
  show ?thesis
    using r s0(2) 1 2 3 4 5 6 7 by blast
qed

lemma once_snoc_connected:
  "once_per_session b (xs @ [Connected]) = once_per_session b xs"
proof (induction xs arbitrary: b)
  case Nil
  show ?case by simp
next
  case (Cons m ms)
  then show ?case by (cases m) simp_all
qed

lemma once_snoc_discovered:
  "once_per_session b (xs @ [Discovered]) =
     (once_per_session b xs \<and> (if xs = [] then b else last xs = Connected))"
proof (induction xs arbitrary: b)
  case Nil
  show ?case by simp
next
  case (Cons m ms)
  show ?case
  proof (cases m)
    case Connected
    then show ?thesis using Cons[of True] by (cases ms) auto
  next
    case Discovered
    then show ?thesis using Cons[of False] by (cases ms) auto
  qed
qed

lemma inv_quiet: "session_inv s \<Longrightarrow> log_quiet s s' \<Longrightarrow> session_inv s'"
  by (simp add: session_inv_def log_quiet_def)

lemma inv_connect:
  "session_inv s \<Longrightarrow> session_log (trace s') = session_log (trace s) @ [Connected] \<Longrightarrow>
   \<not> discoveryPublished s' \<Longrightarrow> session_inv s'"
  by (simp add: session_inv_def once_snoc_connected)

lemma inv_discover:
  assumes "session_inv s" "session_log (trace s) \<noteq> []" "\<not> discoveryPublished s"
    and "session_log (trace s') = session_log (trace s) @ [Discovered]" "discoveryPublished s'"
  shows "session_inv s'"
proof -
  have "last (session_log (trace s)) \<noteq> Discovered"
    using assms(1,2,3) by (simp add: session_inv_def)
  then have "last (session_log (trace s)) = Connected"
    by (cases "last (session_log (trace s))") simp_all
  then show ?thesis
    using assms by (simp add: session_inv_def once_snoc_discovered)
qed

lemma inv_ensureMQTT: "session_inv s \<Longrightarrow> session_inv (ensureMQTTNonBlocking cfg hw s)"
proof (cases "mqtt_due hw s \<and> hw_connack hw (Suc (Suc (tick s)))")
  case True
  assume i: "session_inv s"
  from True have a: "mqtt_due hw s" "hw_connack hw (Suc (Suc (tick s)))" by simp_all
  show ?thesis
    by (rule inv_connect[OF i ensureMQTT_connects(1)[OF a] ensureMQTT_connects(2)[OF a]])
next
  case False
  assume i: "session_inv s"
  show ?thesis
    using inv_quiet[OF i] quiet_parts[OF ensureMQTT_quiet[OF False]] by blast
qed

lemma inv_loop_session: "session_inv s \<Longrightarrow> session_inv (loop_session cfg hw s)"
proof (cases "session s \<and> hw_sock hw (tick s)")
  case False
  assume i: "session_inv s"
  from False have c: "(session s \<and> hw_sock hw (tick s)) = False" by simp
  show ?thesis
    unfolding loop_session_eq c using i by (simp add: session_inv_def)
next
  case True
  assume i: "session_inv s"
  from True have c: "(session s \<and> hw_sock hw (tick s)) = True" by simp
  let ?a = "s\<lparr>session := True, tick := Suc (tick s)\<rparr>"
  let ?b = "mqtt_loop cfg hw ?a"
  have ne: "session_log (trace s) \<noteq> []" using i True by (simp add: session_inv_def)
  have ia: "session_inv ?a" using i ne by (simp add: session_inv_def)
  have q: "log_quiet ?a ?b" using quiet_parts[OF quiet_mqtt_loop] by blast
  have ib: "session_inv ?b" by (rule inv_quiet[OF ia q])
  have nb: "session_log (trace ?b) \<noteq> []" using q ne by (simp add: log_quiet_def)
  show ?thesis
  proof (cases "discoveryPublished ?b")
    case d: True
    show ?thesis unfolding loop_session_eq c if_True loop_discovery_skips[OF d] by (rule ib)
  next
    case d: False
    show ?thesis
      unfolding loop_session_eq c if_True
      by (rule inv_discover[OF ib nb d loop_discovery_publishes(1)[OF d]
                loop_discovery_publishes(2)[OF d]])
  qed
qed

lemma inv_loop: "session_inv s \<Longrightarrow> session_inv (loop cfg hw s)"
proof -
  assume i: "session_inv s"
  have q: "session_inv b" if "session_inv a" "quiet_step a b" for a b
    using inv_quiet[OF that(1)] quiet_parts[OF that(2)] by blast
  have 1: "session_inv (loop_alive hw s)" by (rule q[OF i quiet_loop_alive])
  have 2: "session_inv (ensureWiFiNonBlocking cfg hw (loop_alive hw s))"
    by (rule q[OF 1 quiet_ensureWiFi])
  have 3: "session_inv (loop_ota hw (ensureWiFiNonBlocking cfg hw (loop_alive hw s)))"
    by (rule q[OF 2 quiet_loop_ota])
  have 4: "session_inv (loop_before_boot_check cfg hw s)"
    unfolding loop_before_boot_check_def by (rule inv_loop_session[OF inv_ensureMQTT[OF 3]])
  have 5: "session_inv (loop_bootRestore cfg hw (loop_before_boot_check cfg hw s))"
    by (rule inv_quiet[OF 4 log_quiet_loop_bootRestore])
  have 6: "session_inv (pollRestoreButton cfg hw (loop_bootRestore cfg hw (loop_before_boot_check cfg hw s)))"
    by (rule q[OF 5 quiet_poll])
  show ?thesis
    unfolding loop_split by (rule q[OF 6 quiet_prims(1)])
qed

lemma inv_run: "session_inv s \<Longrightarrow> session_inv (run cfg hw dts s)"
proof (induction dts arbitrary: s)
  case Nil
  then show ?case by simp
next
  case (Cons dt dts)
  have "session_inv (idle dt s)"
    using inv_quiet[OF Cons.prems] quiet_parts[OF quiet_prims(3)] by blast
  then show ?case using Cons.IH[OF inv_loop] by simp
qed

lemma inv_boot: "session_inv (boot cfg hw)"
  by (simp add: session_inv_def boot_facts)


lemma on_trans: "on_step a b m1 \<Longrightarrow> on_step b c m2 \<Longrightarrow> on_step a c (m1 @ m2)"
  by (simp add: on_step_def)

lemma on_mqttPublish:
  "session s \<Longrightarrow> \<forall>n. hw_sock hw n \<Longrightarrow>
   on_step s (mqttPublish hw topic payload retain s) [(topic, payload, retain)]"
  by (simp add: on_step_def mqttPublish_def mqtt_publish_def mqtt_connected_def Let_def
        prim_defs globals_def)

lemma on_publishStatus_step:
  "session s \<Longrightarrow> \<forall>n. hw_sock hw n \<Longrightarrow>
   on_step s (publishStatus hw msg True s) [status_msg s msg]"
  by (simp add: on_step_def publishStatus_eq status_msg_def globals_def)

lemma config_cong:
  assumes "globals a = globals b"
  shows "button_config a object_id name payload_press = button_config b object_id name payload_press"
    and "sensor_config a = sensor_config b"
  by (simp_all only: button_config_def sensor_config_def globals_fields(1,2,3)[OF assms])

lemma on_sensor:
  assumes "session s" "\<forall>n. hw_sock hw n"
  shows "on_step s (publishStatusSensorDiscovery hw s) [sensor_config s]"
  unfolding publishStatusSensorDiscovery_def sensor_config_def Let_def
  by (rule on_mqttPublish[OF assms])

lemma on_button:
  assumes "on_step s a m" "\<forall>n. hw_sock hw n"
  shows "on_step s (publishButtonDiscovery hw object_id name payload_press a)
           (m @ [button_config s object_id name payload_press])"
proof -
  have sa: "session a" and g: "globals a = globals s" using assms(1) by (simp_all add: on_step_def)
  have "on_step a (publishButtonDiscovery hw object_id name payload_press a)
          [button_config a object_id name payload_press]"
    unfolding publishButtonDiscovery_def button_config_def Let_def
    by (rule on_mqttPublish[OF sa assms(2)])
  then show ?thesis
    unfolding config_cong(1)[OF g] by (rule on_trans[OF assms(1)])
qed

lemma on_publishAllDiscovery:
  assumes "session s" "\<forall>n. hw_sock hw n"
  shows "on_step s (publishAllDiscovery hw s) (discovery_set s @ [status_msg s ''discovery:published''])"
proof -
  note b = on_button[OF _ assms(2)]
  let ?a = "publishButtonDiscovery hw ''ir_btn_restore_45_off_01'' ''Restore 45C + OFF'' ''restore_state''
     (publishButtonDiscovery hw ''ir_btn_temp_down_01'' ''IR Temp Down'' ''temp_down''
     (publishButtonDiscovery hw ''ir_btn_temp_up_01'' ''IR Temp Up'' ''temp_up''
     (publishButtonDiscovery hw ''ir_btn_temp_mode_01'' ''IR Temp Mode'' ''temp_mode''
     (publishButtonDiscovery hw ''ir_btn_sleep_timer_01'' ''IR Sleep Timer'' ''sleep_timer''
     (publishButtonDiscovery hw ''ir_btn_osc_toggle_01'' ''IR Oscillation Toggle'' ''oscillation_toggle''
     (publishButtonDiscovery hw ''ir_btn_power_level_01'' ''IR Power Level'' ''power_level''
     (publishButtonDiscovery hw ''ir_btn_power_toggle_01'' ''IR Power Toggle'' ''power_toggle''
     (publishStatusSensorDiscovery hw s))))))))"
  have a: "on_step s ?a (discovery_set s)"
    unfolding discovery_set_def
    using b[OF b[OF b[OF b[OF b[OF b[OF b[OF b[OF on_sensor[OF assms]]]]]]]]]
    by (simp only: append_Cons append_Nil)
  then have sa: "session ?a" and g: "globals ?a = globals s" by (simp_all add: on_step_def)
  have "on_step ?a (publishStatus hw ''discovery:published'' True ?a) [status_msg ?a ''discovery:published'']"
    by (rule on_publishStatus_step[OF sa assms(2)])
  then have "on_step ?a (publishStatus hw ''discovery:published'' True ?a) [status_msg s ''discovery:published'']"
    by (simp add: status_msg_def globals_fields(2)[OF g])
  then have "on_step s (publishStatus hw ''discovery:published'' True ?a)
               (discovery_set s @ [status_msg s ''discovery:published''])"
    by (rule on_trans[OF a])
  then show ?thesis
    unfolding publishAllDiscovery_def Let_def by (simp add: on_step_def prim_defs globals_def)
qed

lemma loop_discovery_online:
  assumes "\<not> discoveryPublished s" "session s" "\<forall>n. hw_sock hw n"
  shows "published (trace (loop_discovery hw s)) =
           published (trace s) @ discovery_set s
           @ map (status_msg s)
               [''discovery:published'',
                ''boot:reset_reason:'' @ resetReasonToString (hw_reset_reason hw), ''ready'']"
    and "session (loop_discovery hw s)"
proof -
  let ?a = "publishAllDiscovery hw s"
  let ?b = "?a\<lparr>discoveryPublished := True\<rparr>"
  let ?c = "publishStatus hw (''boot:reset_reason:'' @ resetReasonToString (hw_reset_reason hw)) True ?b"
  have e: "loop_discovery hw s = publishStatus hw ''ready'' True ?c"
    using assms(1) by (simp add: loop_discovery_def Let_def)
  have a: "session ?a" "globals ?a = globals s"
      "published (trace ?a) = published (trace s) @ discovery_set s @ [status_msg s ''discovery:published'']"
    using on_publishAllDiscovery[OF assms(2,3)] by (simp_all add: on_step_def)
  have b: "session ?b" "mqttTopicStatus ?b = mqttTopicStatus s" "trace ?b = trace ?a"
    using a(1) globals_fields(2)[OF a(2)] by simp_all
  have c: "on_step ?b ?c [status_msg ?b (''boot:reset_reason:'' @ resetReasonToString (hw_reset_reason hw))]"
    by (rule on_publishStatus_step[OF b(1) assms(3)])
  then have sc: "session ?c" and gc: "globals ?c = globals ?b" by (simp_all add: on_step_def)
  have d: "on_step ?c (publishStatus hw ''ready'' True ?c) [status_msg ?c ''ready'']"
    by (rule on_publishStatus_step[OF sc assms(3)])
  show "session (loop_discovery hw s)" unfolding e using d by (simp add: on_step_def)
  show "published (trace (loop_discovery hw s)) =
           published (trace s) @ discovery_set s
           @ map (status_msg s)
               [''discovery:published'',
                ''boot:reset_reason:'' @ resetReasonToString (hw_reset_reason hw), ''ready'']"
    unfolding e using c d a(3) b(2,3) globals_fields(2)[OF gc]
    by (simp add: on_step_def status_msg_def)
qed

lemma discovery_set_topics: "map fst (discovery_set s) = discovery_topics"
  by (simp add: discovery_set_def sensor_config_def button_config_def discovery_topics_def
        HA_DISCOVERY_PREFIX_def)

lemma loop_session_sets_flag:
  assumes "session s" "hw_sock hw (tick s)"
  shows "discoveryPublished (loop_session cfg hw s)"
proof -
  let ?b = "mqtt_loop cfg hw (s\<lparr>session := True, tick := Suc (tick s)\<rparr>)"
  have e: "loop_session cfg hw s = loop_discovery hw ?b"
    using assms by (simp add: loop_session_eq)
  show ?thesis
    unfolding e
    using loop_discovery_skips[of ?b hw] loop_discovery_publishes(2)[of ?b hw]
    by (cases "discoveryPublished ?b") simp_all
qed


lemma same_round_discovery:
  assumes wifi: "\<forall>n. hw_wifi hw n" and sock: "\<forall>n. hw_sock hw n" and ack: "\<forall>n. hw_connack hw n"
    and ns: "\<not> session s" and due: "MQTT_RETRY_MS \<le> millis s - lastMqttAttemptMs s"
  shows "session_log (trace (loop cfg hw s)) = session_log (trace s) @ [Connected, Discovered]"
    and "discoveryPublished (loop cfg hw s)"
proof -
  let ?a = "loop_alive hw s"
  let ?b = "ensureWiFiNonBlocking cfg hw ?a"
  let ?c = "loop_ota hw ?b"
  let ?d = "ensureMQTTNonBlocking cfg hw ?c"
  let ?e = "loop_session cfg hw ?d"
  let ?f = "loop_bootRestore cfg hw ?e"
  have a: "clock ?a = clock s" "lastMqttAttemptMs ?a = lastMqttAttemptMs s" "\<not> session ?a"
      "session_log (trace ?a) = session_log (trace s)"
    using ns
    by (simp_all add: loop_alive_def wifi_connected_def mqtt_connected_def Let_def prim_defs)
  have b: "clock ?b = clock s" "lastMqttAttemptMs ?b = lastMqttAttemptMs s" "\<not> session ?b"
      "session_log (trace ?b) = session_log (trace s)"
    using a by (simp_all add: ensureWiFi_eq)
  have c: "clock ?c = clock s" "lastMqttAttemptMs ?c = lastMqttAttemptMs s" "\<not> session ?c"
      "session_log (trace ?c) = session_log (trace s)"
    using b by (simp_all add: loop_ota_def wifi_connected_def setupOTA_def Let_def prim_defs)
  have md: "mqtt_due hw ?c"
    using c wifi due by (simp add: mqtt_due_def millis_def)
  have ok: "hw_connack hw (Suc (Suc (tick ?c)))" using ack by simp
  have d: "session_log (trace ?d) = session_log (trace s) @ [Connected]" "\<not> discoveryPublished ?d"
    using ensureMQTT_connects(1,2)[OF md ok, of cfg] c(4) by simp_all
  have sd: "session ?d"
    unfolding ensureMQTT_accepted[OF md ok] using sock
    by (simp add: publishStatus_eq setAvailability_eq)
  let ?m = "mqtt_loop cfg hw (?d\<lparr>session := True, tick := Suc (tick ?d)\<rparr>)"
  have e: "?e = loop_discovery hw ?m"
    using sd sock by (simp add: loop_session_eq)
  have m: "session_log (trace ?m) = session_log (trace ?d)" "\<not> discoveryPublished ?m"
    using quiet_mqtt_loop[of "?d\<lparr>session := True, tick := Suc (tick ?d)\<rparr>" cfg hw] d(2)
    by (simp_all add: quiet_step_def)
  have e': "session_log (trace ?e) = session_log (trace s) @ [Connected, Discovered]"
      "discoveryPublished ?e"
    unfolding e using loop_discovery_publishes(1,2)[OF m(2), of hw] m(1) d(1) by simp_all
  have f: "log_quiet ?e ?f" by (rule log_quiet_loop_bootRestore)
  have "quiet_step ?f (delay 1 (pollRestoreButton cfg hw ?f))"
    by (rule quiet_trans[OF quiet_poll quiet_prims(1)])
  then have g: "log_quiet ?f (loop cfg hw s)"
    unfolding loop_def Let_def using quiet_parts by blast
  have l: "log_quiet ?e (loop cfg hw s)" by (rule log_quiet_trans[OF f g])
  show "session_log (trace (loop cfg hw s)) = session_log (trace s) @ [Connected, Discovered]"
    using l e'(1) by (simp add: log_quiet_def)
  show "discoveryPublished (loop cfg hw s)"
    using l e'(2) by (simp add: log_quiet_def)
qed

lemma lastMqttAttemptMs_boot: "lastMqttAttemptMs (boot cfg hw) = 0"
proof -
  have g: "lastMqttAttemptMs (emit e x) = lastMqttAttemptMs x"
      "lastMqttAttemptMs (delay n x) = lastMqttAttemptMs x"
      "lastMqttAttemptMs (Serial_println t x) = lastMqttAttemptMs x"
      "lastMqttAttemptMs (ensureWiFiNonBlocking cfg hw x) = lastMqttAttemptMs x"
      "lastMqttAttemptMs (buildMqttTopics cfg x) = lastMqttAttemptMs x" for e n t x
    by (simp_all add: prim_defs ensureWiFi_eq buildMqttTopics_def Let_def)
  show ?thesis
    unfolding boot_def setup_ino_def Let_def by (simp add: g) (simp add: power_up_def)
qed

subsection \<open>Status messages without a session\<close>

lemma off_trans: "off_step a b \<Longrightarrow> off_step b c \<Longrightarrow> off_step a c"
  by (simp add: off_step_def)

lemma off_inv: "offline_inv s \<Longrightarrow> off_step s s' \<Longrightarrow> offline_inv s'"
  by (simp add: off_step_def offline_inv_def)

lemma off_log_quiet:
  "log_quiet s s' \<Longrightarrow> (\<not> session s \<Longrightarrow> published (trace s') = published (trace s)) \<Longrightarrow> off_step s s'"
  by (auto simp add: off_step_def log_quiet_def)

lemma off_quiet:
  "quiet_step s s' \<Longrightarrow> (\<not> session s \<Longrightarrow> published (trace s') = published (trace s)) \<Longrightarrow> off_step s s'"
  using quiet_parts off_log_quiet by blast

lemma off_loop_alive: "off_step s (loop_alive hw s)"
  by (rule off_quiet[OF quiet_loop_alive])
     (simp add: loop_alive_def wifi_connected_def mqtt_connected_def Let_def prim_defs)

lemma off_ensureWiFi: "off_step s (ensureWiFiNonBlocking cfg hw s)"
  by (rule off_quiet[OF quiet_ensureWiFi]) (simp add: ensureWiFi_eq)

lemma off_loop_ota: "off_step s (loop_ota hw s)"
  by (rule off_quiet[OF quiet_loop_ota])
     (simp add: loop_ota_def wifi_connected_def setupOTA_def Let_def prim_defs)

lemma off_ensureMQTT: "off_step s (ensureMQTTNonBlocking cfg hw s)"
proof (cases "mqtt_due hw s \<and> hw_connack hw (Suc (Suc (tick s)))")
  case True
  then show ?thesis by (simp add: off_step_def ensureMQTT_connects(1))
next
  case False
  show ?thesis
  proof (rule off_quiet[OF ensureMQTT_quiet[OF False]])
    show "published (trace (ensureMQTTNonBlocking cfg hw s)) = published (trace s)"
    proof (cases "mqtt_due hw s")
      case d: True
      then have "\<not> hw_connack hw (Suc (Suc (tick s)))" using False by simp
      then show ?thesis by (simp add: ensureMQTT_refused[OF d])
    next
      case d: False
      then show ?thesis by (simp add: ensureMQTT_idle)
    qed
  qed
qed

lemma off_loop_session: "off_step s (loop_session cfg hw s)"
proof (cases "session s \<and> hw_sock hw (tick s)")
  case False
  then have c: "(session s \<and> hw_sock hw (tick s)) = False" by simp
  show ?thesis unfolding loop_session_eq c by (simp add: off_step_def)
next
  case True
  then have c: "(session s \<and> hw_sock hw (tick s)) = True" by simp
  let ?a = "mqtt_loop cfg hw (s\<lparr>session := True, tick := Suc (tick s)\<rparr>)"
  have a: "session_log (trace ?a) = session_log (trace s)"
    using quiet_mqtt_loop[of "s\<lparr>session := True, tick := Suc (tick s)\<rparr>" cfg hw]
    by (simp add: quiet_step_def)
  have "session_log (trace (loop_discovery hw ?a)) = [] \<longrightarrow> session_log (trace s) = []"
    using loop_discovery_publishes(1)[of ?a hw] loop_discovery_skips[of ?a hw] a
    by (cases "discoveryPublished ?a") simp_all
  then show ?thesis
    unfolding loop_session_eq c using True by (simp add: off_step_def)
qed

lemma off_loop_bootRestore: "off_step s (loop_bootRestore cfg hw s)"
proof (rule off_log_quiet[OF log_quiet_loop_bootRestore])
  assume off: "\<not> session s"
  show "published (trace (loop_bootRestore cfg hw s)) = published (trace s)"
  proof (cases "bootRestoreScheduled s \<and> bootRestoreAtMs s \<le> millis s")
    case False
    then show ?thesis by (simp add: loop_bootRestore_waits)
  next
    case True
    let ?s = "s\<lparr>bootRestoreScheduled := False, session := False, tick := Suc (tick s)\<rparr>"
    have f: "loop_bootRestore cfg hw s = restoreTo45AndOff cfg hw ''boot_powerloss'' 0 ?s"
      using True off by (simp add: loop_bootRestore_fires)
    have o: "\<not> session ?s" by simp
    show ?thesis unfolding f using published_local_off[OF o] by simp
  qed
qed

lemma off_poll: "off_step s (pollRestoreButton cfg hw s)"
proof (rule off_quiet[OF quiet_poll])
  assume off: "\<not> session s"
  show "published (trace (pollRestoreButton cfg hw s)) = published (trace s)"
  proof (cases "btn_accepted hw s")
    case False
    show ?thesis unfolding poll_ignored[OF False] by simp
  next
    case True
    show ?thesis
    proof (cases "hw_pin hw (tick s) = HIGH")
      case h: True
      show ?thesis unfolding poll_released[OF True h] by simp
    next
      case False
      then have l: "hw_pin hw (tick s) = LOW" by (simp add: HIGH_def LOW_def)
      let ?a = "Serial_println ''button:restore_pressed''
          (publishStatus hw ''button:restore_pressed'' True
             (s\<lparr>tick := Suc (tick s), lastBtnChangeMs := millis s, lastBtnState := LOW\<rparr>))"
      have o: "\<not> session ?a" using off by (simp add: publishStatus_eq)
      have t: "published (trace ?a) = published (trace s)"
        using off by (simp add: publishStatus_eq prim_defs)
      show ?thesis unfolding poll_pressed[OF True l] published_local_off[OF o] by (rule t)
    qed
  qed
qed

lemma off_delay: "off_step s (delay ms s)"
  by (rule off_quiet[OF quiet_prims(1)]) (simp add: prim_defs)

lemma off_idle: "off_step s (idle dt s)"
  by (rule off_quiet[OF quiet_prims(3)]) (simp add: idle_def)

lemma off_loop: "off_step s (loop cfg hw s)"
  unfolding loop_split loop_before_boot_check_def
  by (intro off_trans[OF _ off_delay] off_trans[OF _ off_poll] off_trans[OF _ off_loop_bootRestore]
        off_trans[OF _ off_loop_session] off_trans[OF _ off_ensureMQTT] off_trans[OF _ off_loop_ota]
        off_trans[OF _ off_ensureWiFi] off_loop_alive)

lemma off_run: "off_step s (run cfg hw dts s)"
proof (induction dts arbitrary: s)
  case Nil
  show ?case by (simp add: off_step_def)
next
  case (Cons dt dts)
  show ?case
    using off_trans[OF off_trans[OF off_idle off_loop] Cons[of "loop cfg hw (idle dt s)"]]
    by simp
qed

lemma published_setup: "published (trace (setup_ino cfg hw s)) = published (trace s)"
proof -
  have p: "published (trace (emit (LibCall l) x)) = published (trace x)"
      "published (trace (delay n x)) = published (trace x)"
      "published (trace (Serial_println t x)) = published (trace x)"
      "published (trace (ensureWiFiNonBlocking cfg hw x)) = published (trace x)"
      "published (trace (buildMqttTopics cfg x)) = published (trace x)"
      for l n t x
    by (simp_all add: prim_defs ensureWiFi_eq)
  show ?thesis unfolding setup_ino_def Let_def by (simp add: p)
qed

lemma offline_inv_boot: "offline_inv (boot cfg hw)"
  using published_setup[of cfg hw power_up]
  by (simp add: offline_inv_def boot_facts) (simp add: boot_def power_up_def)

lemma offline_inv_run: "offline_inv (run cfg hw dts (boot cfg hw))"
  using off_inv[OF offline_inv_boot off_run] .

lemma no_link_loop:
  assumes nw: "\<forall>n. \<not> hw_wifi hw n" and off: "\<not> session s"
  shows "log_quiet s (loop cfg hw s)"
proof -
  let ?a = "loop_alive hw s"
  let ?b = "ensureWiFiNonBlocking cfg hw ?a"
  let ?c = "loop_ota hw ?b"
  let ?d = "ensureMQTTNonBlocking cfg hw ?c"
  let ?e = "loop_session cfg hw ?d"
  have q: "log_quiet x y" if "quiet_step x y" for x y using quiet_parts[OF that] by blast
  have nd: "\<not> (mqtt_due hw ?c \<and> hw_connack hw (Suc (Suc (tick ?c))))"
    using nw by (simp add: mqtt_due_def)
  have d: "log_quiet s ?d"
    by (intro log_quiet_trans[OF _ q[OF ensureMQTT_quiet[OF nd]]]
          log_quiet_trans[OF _ q[OF quiet_loop_ota]]
          log_quiet_trans[OF _ q[OF quiet_ensureWiFi]] q[OF quiet_loop_alive])
  then have "\<not> session ?d" using off by (simp add: log_quiet_def)
  then have "log_quiet ?d ?e" by (simp add: loop_session_eq log_quiet_def)
  then have e: "log_quiet s ?e" using d log_quiet_trans by blast
  show ?thesis
    unfolding loop_split loop_before_boot_check_def
    by (intro log_quiet_trans[OF _ q[OF quiet_prims(1)]] log_quiet_trans[OF _ q[OF quiet_poll]]
          log_quiet_trans[OF _ log_quiet_loop_bootRestore] e)
qed

lemma no_link_run:
  assumes nw: "\<forall>n. \<not> hw_wifi hw n"
  shows "\<not> session s \<Longrightarrow> log_quiet s (run cfg hw dts s)"
proof (induction dts arbitrary: s)
  case Nil
  show ?case by simp
next
  case (Cons dt dts)
  have i: "log_quiet s (idle dt s)" by (simp add: log_quiet_def idle_def)
  then have "\<not> session (idle dt s)" using Cons.prems by (simp add: log_quiet_def)
  then have l: "log_quiet (idle dt s) (loop cfg hw (idle dt s))" by (rule no_link_loop[OF nw])
  have il: "log_quiet s (loop cfg hw (idle dt s))" using log_quiet_trans[OF i l] .
  then have "\<not> session (loop cfg hw (idle dt s))" using Cons.prems by (simp add: log_quiet_def)
  from log_quiet_trans[OF il Cons.IH[OF this]] show ?case by simp
qed

text \<open>
  Claim C10. When the client is not connected, \<^verbatim>\<open>publishStatus\<close> leaves the trace as it
  is and the state it returns does not depend on the message, so neither does anything the
  sketch does afterwards: nothing is published and nothing is kept for later. In
  particular a restore macro that starts without a session publishes nothing and still
  transmits all its frames, and so does the boot trigger when it fires without a session.
  After a start, as long as no session has been established, nothing at all has been
  published.
\<close>

theorem offline_status_is_dropped:
  "(\<not> (session s \<and> hw_sock hw (tick s)) \<longrightarrow>
      publishStatus hw msg retain s = s\<lparr>session := False, tick := Suc (tick s)\<rparr>
      \<and> publishStatus hw msg retain s = publishStatus hw msg' retain' s
      \<and> trace (publishStatus hw msg retain s) = trace s
      \<and> run cfg hw dts (publishStatus hw msg retain s) = run cfg hw dts (publishStatus hw msg' retain' s))
   \<and> (\<not> session s \<longrightarrow>
        published (trace (restoreTo45AndOff cfg hw tag pre s)) = published (trace s)
        \<and> \<not> session (restoreTo45AndOff cfg hw tag pre s)
        \<and> ir_frames (trace (restoreTo45AndOff cfg hw tag pre s)) =
            ir_frames (trace s) @ concat (map transmission (restore_codes cfg)))
   \<and> (\<not> session s \<and> bootRestoreScheduled s \<and> bootRestoreAtMs s \<le> millis s \<longrightarrow>
        published (trace (loop_bootRestore cfg hw s)) = published (trace s)
        \<and> \<not> session (loop_bootRestore cfg hw s)
        \<and> ir_frames (trace (loop_bootRestore cfg hw s)) =
            ir_frames (trace s) @ concat (map transmission (restore_codes cfg)))
   \<and> (session_log (trace (run cfg hw dts (boot cfg hw))) = [] \<longrightarrow>
        published (trace (run cfg hw dts (boot cfg hw))) = []
        \<and> \<not> session (run cfg hw dts (boot cfg hw)))"
proof (intro conjI impI)
  assume "\<not> (session s \<and> hw_sock hw (tick s))"
  then show e: "publishStatus hw msg retain s = s\<lparr>session := False, tick := Suc (tick s)\<rparr>"
      "publishStatus hw msg retain s = publishStatus hw msg' retain' s"
      "trace (publishStatus hw msg retain s) = trace s"
    by (auto simp add: publishStatus_eq)
  show "run cfg hw dts (publishStatus hw msg retain s) = run cfg hw dts (publishStatus hw msg' retain' s)"
    by (simp only: e(2))
next
  assume off: "\<not> session s"
  show "published (trace (restoreTo45AndOff cfg hw tag pre s)) = published (trace s)"
    by (rule published_local_off[OF off])
  show "\<not> session (restoreTo45AndOff cfg hw tag pre s)"
    using off_restoreTo45AndOff[OF off, of cfg hw tag pre "[]"] by simp
  show "ir_frames (trace (restoreTo45AndOff cfg hw tag pre s)) =
            ir_frames (trace s) @ concat (map transmission (restore_codes cfg))"
    by (rule ir_frames_restoreTo45AndOff)
next
  assume a: "\<not> session s \<and> bootRestoreScheduled s \<and> bootRestoreAtMs s \<le> millis s"
  let ?s = "s\<lparr>bootRestoreScheduled := False, session := False, tick := Suc (tick s)\<rparr>"
  have f: "loop_bootRestore cfg hw s = restoreTo45AndOff cfg hw ''boot_powerloss'' 0 ?s"
    using a by (simp add: loop_bootRestore_fires)
  have off: "\<not> session ?s" by simp
  show "published (trace (loop_bootRestore cfg hw s)) = published (trace s)"
    unfolding f using published_local_off[OF off] by simp
  show "\<not> session (loop_bootRestore cfg hw s)"
    unfolding f using off_restoreTo45AndOff[OF off, of cfg hw _ _ "[]"] by simp
  show "ir_frames (trace (loop_bootRestore cfg hw s)) =
            ir_frames (trace s) @ concat (map transmission (restore_codes cfg))"
    unfolding f by (simp add: ir_frames_restoreTo45AndOff)
next
  assume "session_log (trace (run cfg hw dts (boot cfg hw))) = []"
  then show "published (trace (run cfg hw dts (boot cfg hw))) = []"
      "\<not> session (run cfg hw dts (boot cfg hw))"
    using offline_inv_run[of cfg hw dts] by (simp_all add: offline_inv_def)
qed

theorem offline_status_is_dropped_witness:
  "\<not> (session (power_up\<lparr>bootRestoreScheduled := True\<rparr>)
        \<and> hw_sock hw_offline (tick (power_up\<lparr>bootRestoreScheduled := True\<rparr>)))
   \<and> \<not> session (power_up\<lparr>bootRestoreScheduled := True\<rparr>)
   \<and> bootRestoreScheduled (power_up\<lparr>bootRestoreScheduled := True\<rparr>)
   \<and> bootRestoreAtMs (power_up\<lparr>bootRestoreScheduled := True\<rparr>)
        \<le> millis (power_up\<lparr>bootRestoreScheduled := True\<rparr>)
   \<and> published (trace (loop_bootRestore config_h hw_offline (power_up\<lparr>bootRestoreScheduled := True\<rparr>))) = []
   \<and> ir_frames (trace (loop_bootRestore config_h hw_offline (power_up\<lparr>bootRestoreScheduled := True\<rparr>))) =
        concat (map transmission (restore_codes config_h))
   \<and> publishStatus hw_offline ''restore:start:boot_powerloss'' True (power_up\<lparr>bootRestoreScheduled := True\<rparr>)
        = power_up\<lparr>bootRestoreScheduled := True, session := False, tick := Suc 0\<rparr>
   \<and> session_log (trace (run config_h hw_offline [15000, 1] (boot config_h hw_offline))) = []
   \<and> boot_runs (trace (run config_h hw_offline [15000, 1] (boot config_h hw_offline))) = 1
   \<and> published (trace (run config_h hw_offline [15000, 1] (boot config_h hw_offline))) = []"
proof -
  let ?s = "power_up\<lparr>bootRestoreScheduled := True\<rparr>"
  let ?bt = "boot config_h hw_offline"
  note T = offline_status_is_dropped[of ?s hw_offline "''restore:start:boot_powerloss''" True
        _ _ config_h "[15000, 1]"]
  have h: "\<not> session ?s" "bootRestoreScheduled ?s" "bootRestoreAtMs ?s \<le> millis ?s"
      "trace ?s = []" "tick ?s = 0"
    by (simp_all add: power_up_def millis_def)
  have a: "\<not> (session ?s \<and> hw_sock hw_offline (tick ?s))" using h by simp
  have b: "\<not> session ?s \<and> bootRestoreScheduled ?s \<and> bootRestoreAtMs ?s \<le> millis ?s"
    using h by simp
  have 1: "published (trace (loop_bootRestore config_h hw_offline ?s)) = []"
      "ir_frames (trace (loop_bootRestore config_h hw_offline ?s)) =
         concat (map transmission (restore_codes config_h))"
    using T b h(4) by simp_all
  have 2: "publishStatus hw_offline ''restore:start:boot_powerloss'' True ?s
        = power_up\<lparr>bootRestoreScheduled := True, session := False, tick := Suc 0\<rparr>"
    using T a h(5) by simp
  have nw: "\<forall>n. \<not> hw_wifi hw_offline n" by (simp add: hw_offline_def)
  have r: "shouldRunRestoreOnBoot (hw_reset_reason hw_offline)"
    by (simp add: hw_offline_def shouldRunRestoreOnBoot_def)
  have s0: "bootRestoreScheduled ?bt" "bootRestoreAtMs ?bt = 15200" "millis ?bt = 200"
      "boot_runs (trace ?bt) = 0" "\<not> session ?bt"
    using r boot_facts(3)[OF r, of config_h]
    by (simp_all add: boot_facts) (simp add: config_h_def)
  have 3: "session_log (trace (run config_h hw_offline [15000, 1] ?bt)) = []"
    using no_link_run[OF nw s0(5), of config_h "[15000, 1]"]
    by (simp add: log_quiet_def boot_facts)
  have i: "bootRestoreScheduled (idle 15000 ?bt)" "bootRestoreAtMs (idle 15000 ?bt) = 15200"
      "millis (idle 15000 ?bt) = 15200" "\<not> session (idle 15000 ?bt)"
    using s0 by (simp_all add: idle_def millis_def)
  have "\<not> bootRestoreScheduled (loop config_h hw_offline (idle 15000 ?bt))"
    unfolding loop_keeps_trigger offline_round_clock[OF nw i(4)] by (simp add: i)
  then have "\<not> bootRestoreScheduled (run config_h hw_offline [1] (loop config_h hw_offline (idle 15000 ?bt)))"
    using boot_step_run[of "loop config_h hw_offline (idle 15000 ?bt)" config_h hw_offline "[1]"]
    by (simp add: boot_step_def)
  then have 4: "boot_runs (trace (run config_h hw_offline [15000, 1] ?bt)) = 1"
    using run_budget[of config_h hw_offline "[15000, 1]" ?bt] s0 by simp
  have 5: "published (trace (run config_h hw_offline [15000, 1] ?bt)) = []"
    using T 3 by blast
  show ?thesis
    using a h(1,2,3) 1 2 3 4 5 by blast
qed

subsection \<open>The discovery run on the wire\<close>

lemma wire_simps [simp]:
  "wire [] = []" "wire (e # es) = (if on_wire e then [e] else []) @ wire es"
  "wire (xs @ ys) = wire xs @ wire ys"
  by (simp_all add: wire_def)

lemma wire_pauses [simp]: "wire (concat (replicate k [Delay 5, Yield])) = []"
  by (induction k) simp_all

lemma seen_append:
  "descriptor_seen t b (xs @ ys) = descriptor_seen t (descriptor_seen t b xs) ys"
proof (induction xs arbitrary: b)
  case Nil
  show ?case by simp
next
  case (Cons e es)
  then show ?case by (cases e) simp_all
qed

lemma once_append:
  "descriptor_once t b (xs @ ys) =
     (descriptor_once t b xs \<and> descriptor_once t (descriptor_seen t b xs) ys)"
proof (induction xs arbitrary: b)
  case Nil
  show ?case by simp
next
  case (Cons e es)
  then show ?case by (cases e) auto
qed

lemma seen_wire: "descriptor_seen t b (wire tr) = descriptor_seen t b tr"
proof (induction tr arbitrary: b)
  case Nil
  show ?case by simp
next
  case (Cons e es)
  then show ?case by (cases e) simp_all
qed

lemma once_wire: "descriptor_once t b (wire tr) = descriptor_once t b tr"
proof (induction tr arbitrary: b)
  case Nil
  show ?case by simp
next
  case (Cons e es)
  then show ?case by (cases e) simp_all
qed

lemma tame_once:
  assumes "list_all (tame st av) w" "t \<noteq> st" "t \<noteq> av"
  shows "descriptor_once t b w" and "descriptor_seen t b w = b"
proof -
  have "descriptor_once t b w \<and> descriptor_seen t b w = b"
    using assms(1)
  proof (induction w arbitrary: b)
    case Nil
    show ?case by simp
  next
    case (Cons e es)
    then show ?case using assms(2,3) by (cases e) auto
  qed
  then show "descriptor_once t b w" and "descriptor_seen t b w = b" by simp_all
qed

lemma published_wire: "published (wire tr) = published tr"
proof (induction tr)
  case Nil
  show ?case by simp
next
  case (Cons e es)
  then show ?case by (cases e) simp_all
qed

lemma published_pub_ev [simp]: "published (map pub_ev ms) = ms"
  by (induction ms) auto

lemma calm_refl [simp]: "calm_step s s"
  by (simp add: calm_step_def)

lemma calm_trans: "calm_step a b \<Longrightarrow> calm_step b c \<Longrightarrow> calm_step a c"
proof -
  assume ab: "calm_step a b" and bc: "calm_step b c"
  have t: "topics b = topics a" "topics c = topics b"
    using ab bc by (simp_all add: calm_step_def)
  then have f: "mqttTopicStatus b = mqttTopicStatus a" "mqttTopicAvail b = mqttTopicAvail a"
    by (simp_all add: topics_def)
  obtain w1 where w1: "wire (trace b) = wire (trace a) @ w1"
      "list_all (tame (mqttTopicStatus a) (mqttTopicAvail a)) w1"
    using ab by (auto simp add: calm_step_def)
  obtain w2 where w2: "wire (trace c) = wire (trace b) @ w2"
      "list_all (tame (mqttTopicStatus a) (mqttTopicAvail a)) w2"
    using bc unfolding calm_step_def f by auto
  have "wire (trace c) = wire (trace a) @ (w1 @ w2)
        \<and> list_all (tame (mqttTopicStatus a) (mqttTopicAvail a)) (w1 @ w2)"
    using w1 w2 by simp
  then show ?thesis unfolding calm_step_def using t by auto
qed

lemma calm_same:
  "topics s' = topics s \<Longrightarrow> wire (trace s') = wire (trace s) \<Longrightarrow> calm_step s s'"
  by (simp add: calm_step_def)

lemma calm_prims [simp]:
  "calm_step s (delay ms s)" "calm_step s (yield s)" "calm_step s (idle dt s)"
  "calm_step s (Serial_println txt s)" "calm_step s (irsend_sendNEC code bits s)"
  by (rule calm_same; simp add: prim_defs idle_def topics_def)+

lemma calm_publishStatus [simp]: "calm_step s (publishStatus hw msg retain s)"
  by (simp add: calm_step_def publishStatus_eq topics_def)

lemma calm_setAvailability [simp]: "calm_step s (setAvailability hw st s)"
  by (simp add: calm_step_def setAvailability_eq topics_def)

lemma topics_globals: "globals s' = globals s \<Longrightarrow> topics s' = topics s"
  by (simp add: globals_def topics_def)

lemma calm_sendCmd [simp]: "calm_step s (sendCmd cfg hw code tag s)"
  unfolding calm_step_def
  by (simp add: sendCmd_trace topics_globals[OF globals_sendCmd])

lemma calm_wait [simp]: "calm_step s (waitMsWithYield ms s)"
proof -
  obtain k where k: "waitMsWithYield ms s =
         s\<lparr>clock := clock s + 5 * of_nat k, trace := trace s @ concat (replicate k [Delay 5, Yield])\<rparr>"
    using waitMsWithYield_shape by blast
  show ?thesis unfolding k by (rule calm_same) (simp_all add: topics_def)
qed

lemma calm_tempUpLoop [simp]: "calm_step s (tempUpLoop cfg hw i s)"
proof (induction cfg hw i s rule: tempUpLoop.induct)
  case (1 cfg hw i s)
  show ?case
  proof (cases "i < TEMP_STEPS_TO_45 cfg")
    case True
    have "calm_step s (delay 1 (yield (sendCmd cfg hw IR_TEMP_UP ''temp_up'' s)))"
      by (intro calm_trans[OF _ calm_prims(1)] calm_trans[OF _ calm_prims(2)] calm_sendCmd)
    from calm_trans[OF this 1[OF True]] show ?thesis
      using True by (subst tempUpLoop.simps) simp
  next
    case False
    then show ?thesis by (subst tempUpLoop.simps) simp
  qed
qed

lemma calm_if: "calm_step x a \<Longrightarrow> calm_step x b \<Longrightarrow> calm_step x (if c then a else b)"
  by simp

lemma calm_restore [simp]: "calm_step s (restoreTo45AndOff cfg hw tag pre s)"
  unfolding restoreTo45AndOff_def Let_def
  by (intro calm_trans[OF _ calm_prims(4)] calm_trans[OF _ calm_publishStatus]
        calm_trans[OF _ calm_sendCmd] calm_trans[OF _ calm_tempUpLoop]
        calm_trans[OF _ calm_if[OF calm_wait calm_refl]] calm_publishStatus)

lemma calm_handleCommand [simp]: "calm_step s (handleCommand cfg hw cmd s)"
proof -
  let ?s = "Serial_println (''MQTT cmd: '' @ cmd) s"
  have b: "calm_step x
     (if String_equals cmd ''power_toggle'' then sendCmd cfg hw IR_POWER_TOGGLE ''power_toggle'' x
      else if String_equals cmd ''power_level'' then sendCmd cfg hw IR_POWER_LEVEL ''power_level'' x
      else if String_equals cmd ''oscillation_toggle''
           then sendCmd cfg hw IR_OSCILLATION_TOGGLE ''oscillation_toggle'' x
      else if String_equals cmd ''sleep_timer'' then sendCmd cfg hw IR_SLEEP_TIMER ''sleep_timer'' x
      else if String_equals cmd ''temp_mode'' then sendCmd cfg hw IR_TEMP_MODE ''temp_mode'' x
      else if String_equals cmd ''temp_up'' then sendCmd cfg hw IR_TEMP_UP ''temp_up'' x
      else if String_equals cmd ''temp_down'' then sendCmd cfg hw IR_TEMP_DOWN ''temp_down'' x
      else if String_equals cmd ''restore_state''
           then restoreTo45AndOff cfg hw ''mqtt'' (MANUAL_DELAY_MS cfg) x
      else Serial_println ''error:unknown_cmd''
             (publishStatus hw ''error:unknown_cmd'' True x))" for x
    by (intro calm_if calm_sendCmd calm_restore calm_trans[OF calm_publishStatus calm_prims(4)])
  show ?thesis
    unfolding handleCommand_def Let_def by (rule calm_trans[OF calm_prims(4) b])
qed

lemma calm_mqtt_loop [simp]: "calm_step s (mqtt_loop cfg hw s)"
proof (cases "session s \<and> hw_sock hw (tick s)")
  case False
  then have c: "(session s \<and> hw_sock hw (tick s)) = False" by simp
  have e: "mqtt_loop cfg hw s = s\<lparr>session := False, tick := Suc (tick s)\<rparr>"
    unfolding mqtt_loop_def mqtt_connected_def Let_def c by simp
  show ?thesis unfolding e by (rule calm_same) (simp_all add: topics_def)
next
  case True
  let ?s = "s\<lparr>session := True, tick := Suc (Suc (tick s))\<rparr>"
  have q: "calm_step s ?s" by (rule calm_same) (simp_all add: topics_def)
  show ?thesis
  proof (cases "hw_rx hw (Suc (tick s))")
    case None
    with True have e: "mqtt_loop cfg hw s = ?s"
      by (simp add: mqtt_loop_def mqtt_connected_def Let_def)
    show ?thesis unfolding e by (rule q)
  next
    case (Some p)
    with True have e: "mqtt_loop cfg hw s =
        handleCommand cfg hw (String_toLowerCase (String_trim p)) ?s"
      by (simp add: mqtt_loop_def mqtt_connected_def Let_def mqttCallback_def)
    show ?thesis unfolding e by (rule calm_trans[OF q calm_handleCommand])
  qed
qed

lemma calm_poll [simp]: "calm_step s (pollRestoreButton cfg hw s)"
proof (cases "btn_accepted hw s")
  case False
  show ?thesis unfolding poll_ignored[OF False] by (rule calm_same) (simp_all add: topics_def)
next
  case True
  show ?thesis
  proof (cases "hw_pin hw (tick s) = HIGH")
    case h: True
    show ?thesis unfolding poll_released[OF True h] by (rule calm_same) (simp_all add: topics_def)
  next
    case False
    then have l: "hw_pin hw (tick s) = LOW" by (simp add: HIGH_def LOW_def)
    let ?a = "s\<lparr>tick := Suc (tick s), lastBtnChangeMs := millis s, lastBtnState := LOW\<rparr>"
    have 1: "calm_step s ?a" by (rule calm_same) (simp_all add: topics_def)
    show ?thesis
      unfolding poll_pressed[OF True l]
      by (intro calm_trans[OF _ calm_restore] calm_trans[OF _ calm_prims(4)]
            calm_trans[OF _ calm_publishStatus] 1)
  qed
qed

lemma calm_loop_bootRestore [simp]: "calm_step s (loop_bootRestore cfg hw s)"
proof (cases "bootRestoreScheduled s \<and> bootRestoreAtMs s \<le> millis s")
  case False
  then show ?thesis by (simp add: loop_bootRestore_waits)
next
  case True
  let ?a = "s\<lparr>bootRestoreScheduled := False, session := True, tick := Suc (tick s)\<rparr>"
  let ?b = "s\<lparr>bootRestoreScheduled := False, session := False, tick := Suc (tick s)\<rparr>"
  have a: "calm_step s ?a" and b: "calm_step s ?b"
    by (rule calm_same; simp add: topics_def)+
  have "calm_step s (if session s \<and> hw_sock hw (tick s)
        then publishStatus hw ''boot:powerloss_restore:run'' True ?a else ?b)"
    by (intro calm_if calm_trans[OF a calm_publishStatus] b)
  then show ?thesis
    using True by (simp add: loop_bootRestore_fires calm_trans[OF _ calm_restore])
qed

lemma calm_loop_alive [simp]: "calm_step s (loop_alive hw s)"
  by (rule calm_same)
     (simp_all add: loop_alive_def wifi_connected_def mqtt_connected_def Let_def prim_defs topics_def)

lemma calm_ensureWiFi [simp]: "calm_step s (ensureWiFiNonBlocking cfg hw s)"
  by (rule calm_same) (simp_all add: ensureWiFi_eq topics_def)

lemma calm_loop_ota [simp]: "calm_step s (loop_ota hw s)"
  by (rule calm_same)
     (simp_all add: loop_ota_def wifi_connected_def setupOTA_def Let_def prim_defs topics_def)

lemma calm_ensureMQTT:
  "\<not> (mqtt_due hw s \<and> hw_connack hw (Suc (Suc (tick s)))) \<Longrightarrow>
   calm_step s (ensureMQTTNonBlocking cfg hw s)"
proof (cases "mqtt_due hw s")
  case False
  then show ?thesis by (simp add: ensureMQTT_idle calm_step_def topics_def)
next
  case True
  assume "\<not> (mqtt_due hw s \<and> hw_connack hw (Suc (Suc (tick s))))"
  with True have "\<not> hw_connack hw (Suc (Suc (tick s)))" by simp
  then show ?thesis by (simp add: ensureMQTT_refused[OF True] calm_step_def topics_def)
qed

lemma desc_calm:
  assumes i: "descriptor_inv s" and c: "calm_step s s'"
    and f: "discoveryPublished s \<longrightarrow> discoveryPublished s'"
  shows "descriptor_inv s'"
proof -
  have t: "mqttTopicStatus s' = mqttTopicStatus s" "mqttTopicAvail s' = mqttTopicAvail s"
    using c by (simp_all add: calm_step_def topics_def)
  obtain w where w: "wire (trace s') = wire (trace s) @ w"
      "list_all (tame (mqttTopicStatus s) (mqttTopicAvail s)) w"
    using c by (auto simp add: calm_step_def)
  have n: "mqttTopicStatus s \<notin> set discovery_topics" "mqttTopicAvail s \<notin> set discovery_topics"
    using i by (simp_all add: descriptor_inv_def)
  have "descriptor_once t False (trace s')
         \<and> (descriptor_seen t False (trace s') \<longrightarrow> discoveryPublished s')"
    if m: "t \<in> set discovery_topics" for t
  proof -
    have ne: "t \<noteq> mqttTopicStatus s" "t \<noteq> mqttTopicAvail s" using m n by auto
    have o: "descriptor_once t False (trace s)"
      and p: "descriptor_seen t False (trace s) \<longrightarrow> discoveryPublished s"
      using i m by (simp_all add: descriptor_inv_def)
    have "descriptor_once t False (wire (trace s'))"
      unfolding w(1) once_append using o tame_once(1)[OF w(2) ne] by (simp add: once_wire)
    moreover have "descriptor_seen t False (wire (trace s')) = descriptor_seen t False (trace s)"
      unfolding w(1) seen_append using tame_once(2)[OF w(2) ne] by (simp add: seen_wire)
    ultimately show ?thesis using p f by (simp add: once_wire seen_wire)
  qed
  then show ?thesis unfolding descriptor_inv_def t using n by blast
qed

lemma desc_quiet_calm:
  assumes "descriptor_inv s" "calm_step s s'" "quiet_step s s'"
  shows "descriptor_inv s'"
  using desc_calm[OF assms(1,2)] assms(3) by (simp add: quiet_step_def)

lemma desc_ensureMQTT:
  assumes i: "descriptor_inv s"
  shows "descriptor_inv (ensureMQTTNonBlocking cfg hw s)"
proof (cases "mqtt_due hw s \<and> hw_connack hw (Suc (Suc (tick s)))")
  case False
  show ?thesis
    by (rule desc_quiet_calm[OF i calm_ensureMQTT[OF False] ensureMQTT_quiet[OF False]])
next
  case True
  let ?a = "s\<lparr>lastMqttAttemptMs := millis s, session := True, tick := Suc (Suc (Suc (tick s))),
              trace := trace s @ [SerialLine (''MQTT: connecting to '' @ MQTT_HOST cfg @ '':''
                                                @ decimal (unat (MQTT_PORT cfg))),
                                  MqttConnect (mqttTopicAvail s) AVAIL_OFFLINE True,
                                  SerialLine ''MQTT: connected'',
                                  MqttSubscribe (mqttTopicCmd s)]\<rparr>"
  let ?b = "publishStatus hw ''online'' True (setAvailability hw AVAIL_ONLINE ?a)"
  have e: "ensureMQTTNonBlocking cfg hw s = ?b\<lparr>discoveryPublished := False\<rparr>"
    using True by (simp add: ensureMQTT_accepted)
  have n: "mqttTopicStatus s \<notin> set discovery_topics" "mqttTopicAvail s \<notin> set discovery_topics"
    using i by (simp_all add: descriptor_inv_def)
  have c: "calm_step ?a ?b"
    by (rule calm_trans[OF calm_setAvailability calm_publishStatus])
  then obtain w where w: "wire (trace ?b) = wire (trace ?a) @ w"
      "list_all (tame (mqttTopicStatus s) (mqttTopicAvail s)) w"
    by (auto simp add: calm_step_def)
  have t: "mqttTopicStatus ?b = mqttTopicStatus s" "mqttTopicAvail ?b = mqttTopicAvail s"
    using c by (simp_all add: calm_step_def topics_def)
  have "descriptor_once t False (trace ?b) \<and> \<not> descriptor_seen t False (trace ?b)"
    if m: "t \<in> set discovery_topics" for t
  proof -
    have ne: "t \<noteq> mqttTopicStatus s" "t \<noteq> mqttTopicAvail s" using m n by auto
    have o: "descriptor_once t False (trace s)"
      using i m by (simp add: descriptor_inv_def)
    have wa: "wire (trace ?a) = wire (trace s) @ [MqttConnect (mqttTopicAvail s) AVAIL_OFFLINE True]"
      by simp
    have a1: "descriptor_once t False (wire (trace ?a))"
      unfolding wa once_append using o by (simp add: once_wire)
    have a2: "\<not> descriptor_seen t False (wire (trace ?a))"
      unfolding wa seen_append by simp
    have "descriptor_once t False (wire (trace ?b))"
      unfolding w(1) once_append using a1 tame_once(1)[OF w(2) ne] by blast
    moreover have "\<not> descriptor_seen t False (wire (trace ?b))"
      unfolding w(1) seen_append using a2 tame_once(2)[OF w(2) ne] by simp
    ultimately show ?thesis by (simp add: once_wire seen_wire)
  qed
  then show ?thesis
    unfolding e descriptor_inv_def using n t by simp
qed

lemma pub_mqttPublish:
  "pub_step s (mqttPublish hw topic payload retain s) [(topic, payload, retain)]"
  by (auto simp add: pub_step_def mqttPublish_def mqtt_publish_def mqtt_connected_def Let_def
        prim_defs topics_def)

lemma pub_publishStatus:
  "pub_step s (publishStatus hw msg True s) [status_msg s msg]"
  by (auto simp add: pub_step_def publishStatus_eq status_msg_def topics_def)

lemma pub_trans:
  assumes ab: "pub_step a b m1" and bc: "pub_step b c m2"
  shows "pub_step a c (m1 @ m2)"
proof -
  have t: "topics c = topics a" using ab bc by (simp add: pub_step_def)
  have 1: "session c \<longrightarrow> session a \<and> wire (trace c) = wire (trace a) @ map pub_ev (m1 @ m2)"
    using ab bc by (simp add: pub_step_def)
  have 3: "\<not> session a \<longrightarrow> wire (trace c) = wire (trace a)"
    using ab bc by (auto simp add: pub_step_def)
  have 2: "\<exists>k<length (m1 @ m2). wire (trace c) = wire (trace a) @ map pub_ev (take k (m1 @ m2))"
    if nc: "\<not> session c"
  proof (cases "session b")
    case True
    then have b: "wire (trace b) = wire (trace a) @ map pub_ev m1"
      using ab by (simp add: pub_step_def)
    obtain k where k: "k < length m2" "wire (trace c) = wire (trace b) @ map pub_ev (take k m2)"
      using bc nc by (auto simp add: pub_step_def)
    have "length m1 + k < length (m1 @ m2)" using k(1) by simp
    moreover have "wire (trace c) = wire (trace a) @ map pub_ev (take (length m1 + k) (m1 @ m2))"
      unfolding k(2) b by simp
    ultimately show ?thesis by blast
  next
    case False
    then obtain k where k: "k < length m1" "wire (trace b) = wire (trace a) @ map pub_ev (take k m1)"
      using ab by (auto simp add: pub_step_def)
    have c: "wire (trace c) = wire (trace b)" using bc False by (simp add: pub_step_def)
    have "k < length (m1 @ m2)" using k(1) by simp
    moreover have "wire (trace c) = wire (trace a) @ map pub_ev (take k (m1 @ m2))"
      unfolding c k(2) using k(1) by simp
    ultimately show ?thesis by blast
  qed
  show ?thesis unfolding pub_step_def using t 1 2 3 by blast
qed

lemma pub_same:
  "pub_step a b m \<Longrightarrow> topics c = topics b \<Longrightarrow> session c = session b \<Longrightarrow>
   wire (trace c) = wire (trace b) \<Longrightarrow> pub_step a c m"
  by (simp add: pub_step_def)

lemma config_topics:
  assumes "topics a = topics b"
  shows "button_config a object_id name payload_press = button_config b object_id name payload_press"
    and "sensor_config a = sensor_config b" and "status_msg a msg = status_msg b msg"
  using assms by (simp_all add: button_config_def sensor_config_def status_msg_def topics_def)

lemma pub_sensor: "pub_step s (publishStatusSensorDiscovery hw s) [sensor_config s]"
  unfolding publishStatusSensorDiscovery_def sensor_config_def Let_def
  by (rule pub_mqttPublish)

lemma pub_button:
  assumes "pub_step s a m"
  shows "pub_step s (publishButtonDiscovery hw object_id name payload_press a)
           (m @ [button_config s object_id name payload_press])"
proof -
  have g: "topics a = topics s" using assms by (simp add: pub_step_def)
  have "pub_step a (publishButtonDiscovery hw object_id name payload_press a)
          [button_config a object_id name payload_press]"
    unfolding publishButtonDiscovery_def button_config_def Let_def
    by (rule pub_mqttPublish)
  then show ?thesis
    unfolding config_topics(1)[OF g] by (rule pub_trans[OF assms])
qed

lemma pub_publishAllDiscovery:
  "pub_step s (publishAllDiscovery hw s) (discovery_set s @ [status_msg s ''discovery:published''])"
proof -
  let ?a = "publishButtonDiscovery hw ''ir_btn_restore_45_off_01'' ''Restore 45C + OFF'' ''restore_state''
     (publishButtonDiscovery hw ''ir_btn_temp_down_01'' ''IR Temp Down'' ''temp_down''
     (publishButtonDiscovery hw ''ir_btn_temp_up_01'' ''IR Temp Up'' ''temp_up''
     (publishButtonDiscovery hw ''ir_btn_temp_mode_01'' ''IR Temp Mode'' ''temp_mode''
     (publishButtonDiscovery hw ''ir_btn_sleep_timer_01'' ''IR Sleep Timer'' ''sleep_timer''
     (publishButtonDiscovery hw ''ir_btn_osc_toggle_01'' ''IR Oscillation Toggle'' ''oscillation_toggle''
     (publishButtonDiscovery hw ''ir_btn_power_level_01'' ''IR Power Level'' ''power_level''
     (publishButtonDiscovery hw ''ir_btn_power_toggle_01'' ''IR Power Toggle'' ''power_toggle''
     (publishStatusSensorDiscovery hw s))))))))"
  note b = pub_button
  have a: "pub_step s ?a (discovery_set s)"
    unfolding discovery_set_def
    using b[OF b[OF b[OF b[OF b[OF b[OF b[OF b[OF pub_sensor]]]]]]]]
    by (simp only: append_Cons append_Nil)
  then have g: "topics ?a = topics s" by (simp add: pub_step_def)
  have "pub_step ?a (publishStatus hw ''discovery:published'' True ?a) [status_msg ?a ''discovery:published'']"
    by (rule pub_publishStatus)
  then have "pub_step ?a (publishStatus hw ''discovery:published'' True ?a) [status_msg s ''discovery:published'']"
    unfolding config_topics(3)[OF g] .
  then have p: "pub_step s (publishStatus hw ''discovery:published'' True ?a)
               (discovery_set s @ [status_msg s ''discovery:published''])"
    by (rule pub_trans[OF a])
  show ?thesis
    unfolding publishAllDiscovery_def Let_def
    by (rule pub_same[OF p]) (simp_all add: prim_defs topics_def)
qed

lemma pub_loop_discovery:
  assumes "\<not> discoveryPublished s"
  shows "pub_step s (loop_discovery hw s) (discovery_run hw s)"
proof -
  let ?a = "publishAllDiscovery hw s"
  let ?b = "?a\<lparr>discoveryPublished := True\<rparr>"
  let ?c = "publishStatus hw (''boot:reset_reason:'' @ resetReasonToString (hw_reset_reason hw)) True ?b"
  have e: "loop_discovery hw s = publishStatus hw ''ready'' True ?c"
    using assms by (simp add: loop_discovery_def Let_def)
  have b: "pub_step s ?b (discovery_set s @ [status_msg s ''discovery:published''])"
    by (rule pub_same[OF pub_publishAllDiscovery]) (simp_all add: topics_def)
  then have gb: "topics ?b = topics s" by (simp add: pub_step_def)
  have "pub_step ?b ?c [status_msg ?b (''boot:reset_reason:'' @ resetReasonToString (hw_reset_reason hw))]"
    by (rule pub_publishStatus)
  then have "pub_step ?b ?c [status_msg s (''boot:reset_reason:'' @ resetReasonToString (hw_reset_reason hw))]"
    unfolding config_topics(3)[OF gb] .
  from pub_trans[OF b this]
  have c: "pub_step s ?c (discovery_set s @ [status_msg s ''discovery:published'']
             @ [status_msg s (''boot:reset_reason:'' @ resetReasonToString (hw_reset_reason hw))])"
    by simp
  then have gc: "topics ?c = topics s" by (simp add: pub_step_def)
  have "pub_step ?c (publishStatus hw ''ready'' True ?c) [status_msg ?c ''ready'']"
    by (rule pub_publishStatus)
  then have "pub_step ?c (publishStatus hw ''ready'' True ?c) [status_msg s ''ready'']"
    unfolding config_topics(3)[OF gc] .
  from pub_trans[OF c this] show ?thesis
    unfolding e discovery_run_def by simp
qed

lemma pub_published:
  assumes "pub_step s s' msgs"
  shows "session s' \<longrightarrow> published (trace s') = published (trace s) @ msgs"
    and "\<not> session s' \<longrightarrow> (\<exists>k<length msgs. published (trace s') = published (trace s) @ take k msgs)"
    and "\<not> session s \<longrightarrow> published (trace s') = published (trace s)"
    and "session s' \<longrightarrow> session s"
proof -
  have p: "published (trace x) = published (wire (trace x))" for x
    by (simp only: published_wire)
  show "session s' \<longrightarrow> published (trace s') = published (trace s) @ msgs"
    using assms unfolding p[of s'] p[of s] by (auto simp add: pub_step_def)
  show "\<not> session s \<longrightarrow> published (trace s') = published (trace s)"
    using assms unfolding p[of s'] p[of s] by (auto simp add: pub_step_def)
  show "session s' \<longrightarrow> session s" using assms by (simp add: pub_step_def)
  show "\<not> session s' \<longrightarrow> (\<exists>k<length msgs. published (trace s') = published (trace s) @ take k msgs)"
  proof
    assume "\<not> session s'"
    then obtain k where k: "k < length msgs"
        "wire (trace s') = wire (trace s) @ map pub_ev (take k msgs)"
      using assms by (auto simp add: pub_step_def)
    have "published (trace s') = published (trace s) @ take k msgs"
      unfolding p[of s'] p[of s] k(2) by simp
    then show "\<exists>k<length msgs. published (trace s') = published (trace s) @ take k msgs"
      using k(1) by blast
  qed
qed

lemma once_pubs:
  "descriptor_once t b (map pub_ev ms) =
     (length (filter (\<lambda>m. fst m = t) ms) \<le> (if b then 0 else 1))"
proof (induction ms arbitrary: b)
  case Nil
  show ?case by simp
next
  case (Cons m ms)
  obtain t' p r where m: "m = (t', p, r)" by (cases m) auto
  show ?case unfolding m using Cons by auto
qed

lemma filter_take_le: "length (filter P (take k xs)) \<le> length (filter P xs)"
proof -
  have "filter P xs = filter P (take k xs) @ filter P (drop k xs)"
    by (metis append_take_drop_id filter_append)
  then show ?thesis by simp
qed

lemma distinct_filter_le: "distinct xs \<Longrightarrow> length (filter (\<lambda>x. x = t) xs) \<le> Suc 0"
proof (induction xs)
  case Nil
  show ?case by simp
next
  case (Cons x xs)
  show ?case
  proof (cases "x = t")
    case True
    then have "t \<notin> set xs" using Cons.prems by simp
    then have "filter (\<lambda>x. x = t) xs = []" by (auto simp add: filter_empty_conv)
    then show ?thesis using True by simp
  next
    case False
    then show ?thesis using Cons by simp
  qed
qed

lemma distinct_discovery_topics: "distinct discovery_topics"
  by (simp add: discovery_topics_def)

lemma run_topic_once:
  assumes "mqttTopicStatus s \<noteq> t"
  shows "length (filter (\<lambda>m. fst m = t) (discovery_run hw s)) \<le> Suc 0"
proof -
  have "filter (\<lambda>m. fst m = t) (discovery_set s)
          = filter ((\<lambda>x. x = t) \<circ> fst) (discovery_set s)"
    by (simp add: comp_def)
  then have "length (filter (\<lambda>m. fst m = t) (discovery_set s))
          = length (filter (\<lambda>x. x = t) (map fst (discovery_set s)))"
    by (simp add: filter_map)
  also have "\<dots> \<le> Suc 0"
    unfolding discovery_set_topics by (rule distinct_filter_le[OF distinct_discovery_topics])
  finally show ?thesis
    using assms by (simp add: discovery_run_def status_msg_def)
qed

lemma desc_loop_discovery:
  assumes i: "descriptor_inv s"
  shows "descriptor_inv (loop_discovery hw s)"
proof (cases "discoveryPublished s")
  case True
  then show ?thesis using i by (simp add: loop_discovery_skips)
next
  case False
  let ?s = "loop_discovery hw s"
  note p = pub_loop_discovery[OF False, of hw]
  have t: "mqttTopicStatus ?s = mqttTopicStatus s" "mqttTopicAvail ?s = mqttTopicAvail s"
    using p by (simp_all add: pub_step_def topics_def)
  have n: "mqttTopicStatus s \<notin> set discovery_topics" "mqttTopicAvail s \<notin> set discovery_topics"
    using i by (simp_all add: descriptor_inv_def)
  have "\<exists>k. wire (trace ?s) = wire (trace s) @ map pub_ev (take k (discovery_run hw s))"
  proof (cases "session ?s")
    case True
    then have "wire (trace ?s) = wire (trace s)
                 @ map pub_ev (take (length (discovery_run hw s)) (discovery_run hw s))"
      using p by (simp add: pub_step_def)
    then show ?thesis by blast
  next
    case False
    then show ?thesis using p by (auto simp add: pub_step_def)
  qed
  then obtain k where k: "wire (trace ?s) = wire (trace s) @ map pub_ev (take k (discovery_run hw s))"
    by blast
  have f: "discoveryPublished ?s" by (rule loop_discovery_publishes(2)[OF False])
  have "descriptor_once t False (trace ?s)" if m: "t \<in> set discovery_topics" for t
  proof -
    have ne: "mqttTopicStatus s \<noteq> t" using m n by auto
    have o: "descriptor_once t False (trace s)" and ns: "\<not> descriptor_seen t False (trace s)"
      using i m False by (auto simp add: descriptor_inv_def)
    have "length (filter (\<lambda>m. fst m = t) (take k (discovery_run hw s))) \<le> Suc 0"
      using filter_take_le[of "\<lambda>m. fst m = t" k "discovery_run hw s"] run_topic_once[OF ne, of hw]
      by simp
    then have "descriptor_once t False (map pub_ev (take k (discovery_run hw s)))"
      by (simp add: once_pubs)
    then have "descriptor_once t False (wire (trace ?s))"
      unfolding k once_append using o ns by (simp add: once_wire seen_wire)
    then show ?thesis by (simp only: once_wire)
  qed
  then show ?thesis
    unfolding descriptor_inv_def t using n f by blast
qed

lemma desc_loop_session:
  assumes i: "descriptor_inv s"
  shows "descriptor_inv (loop_session cfg hw s)"
proof -
  have a: "descriptor_inv (s\<lparr>session := b, tick := n\<rparr>)" for b n
    by (rule desc_calm[OF i calm_same]) (simp_all add: topics_def)
  let ?a = "s\<lparr>session := True, tick := Suc (tick s)\<rparr>"
  have m: "descriptor_inv (mqtt_loop cfg hw ?a)"
    by (rule desc_quiet_calm[OF a calm_mqtt_loop quiet_mqtt_loop])
  show ?thesis
    unfolding loop_session_eq using a desc_loop_discovery[OF m] by simp
qed

lemma desc_log_quiet_calm:
  assumes "descriptor_inv s" "calm_step s s'" "log_quiet s s'"
  shows "descriptor_inv s'"
  using desc_calm[OF assms(1,2)] assms(3) by (simp add: log_quiet_def)

lemma desc_loop:
  assumes i: "descriptor_inv s"
  shows "descriptor_inv (loop cfg hw s)"
proof -
  let ?a = "loop_alive hw s"
  let ?b = "ensureWiFiNonBlocking cfg hw ?a"
  let ?c = "loop_ota hw ?b"
  let ?d = "ensureMQTTNonBlocking cfg hw ?c"
  let ?e = "loop_session cfg hw ?d"
  let ?f = "loop_bootRestore cfg hw ?e"
  let ?g = "pollRestoreButton cfg hw ?f"
  have a: "descriptor_inv ?a" by (rule desc_quiet_calm[OF i calm_loop_alive quiet_loop_alive])
  have b: "descriptor_inv ?b" by (rule desc_quiet_calm[OF a calm_ensureWiFi quiet_ensureWiFi])
  have c: "descriptor_inv ?c" by (rule desc_quiet_calm[OF b calm_loop_ota quiet_loop_ota])
  have d: "descriptor_inv ?d" by (rule desc_ensureMQTT[OF c])
  have e: "descriptor_inv ?e" by (rule desc_loop_session[OF d])
  have f: "descriptor_inv ?f"
    by (rule desc_log_quiet_calm[OF e calm_loop_bootRestore log_quiet_loop_bootRestore])
  have g: "descriptor_inv ?g" by (rule desc_quiet_calm[OF f calm_poll quiet_poll])
  have "descriptor_inv (delay 1 ?g)" by (rule desc_quiet_calm[OF g calm_prims(1) quiet_prims(1)])
  then show ?thesis by (simp add: loop_def Let_def)
qed

lemma desc_run: "descriptor_inv s \<Longrightarrow> descriptor_inv (run cfg hw dts s)"
proof (induction dts arbitrary: s)
  case Nil
  then show ?case by simp
next
  case (Cons dt dts)
  have "descriptor_inv (idle dt s)"
    by (rule desc_quiet_calm[OF Cons.prems calm_prims(3) quiet_prims(3)])
  then have "descriptor_inv (loop cfg hw (idle dt s))" by (rule desc_loop)
  then show ?case using Cons.IH by simp
qed

lemma setup_wire:
  "wire (trace (setup_ino cfg hw s)) = wire (trace s)"
  "mqttTopicStatus (setup_ino cfg hw s) = ''hvac/'' @ DEVICE_AREA cfg @ ''/'' @ DEVICE_NAME_MQTT cfg @ ''/status''"
  "mqttTopicAvail (setup_ino cfg hw s) = ''hvac/'' @ DEVICE_AREA cfg @ ''/'' @ DEVICE_NAME_MQTT cfg @ ''/availability''"
proof -
  have p: "wire (trace (emit (LibCall l) x)) = wire (trace x)"
      "wire (trace (delay n x)) = wire (trace x)"
      "wire (trace (Serial_println t x)) = wire (trace x)"
      "wire (trace (ensureWiFiNonBlocking cfg hw x)) = wire (trace x)"
      "wire (trace (buildMqttTopics cfg x)) = wire (trace x)"
      for l n t x
    by (simp_all add: prim_defs ensureWiFi_eq)
  have q: "mqttTopicStatus (emit e x) = mqttTopicStatus x"
      "mqttTopicStatus (delay n x) = mqttTopicStatus x"
      "mqttTopicStatus (Serial_println t x) = mqttTopicStatus x"
      "mqttTopicStatus (ensureWiFiNonBlocking cfg hw x) = mqttTopicStatus x"
      "mqttTopicAvail (emit e x) = mqttTopicAvail x"
      "mqttTopicAvail (delay n x) = mqttTopicAvail x"
      "mqttTopicAvail (Serial_println t x) = mqttTopicAvail x"
      "mqttTopicAvail (ensureWiFiNonBlocking cfg hw x) = mqttTopicAvail x"
      for e n t x
    by (simp_all add: prim_defs ensureWiFi_eq)
  have r: "mqttTopicStatus (buildMqttTopics cfg x) = ''hvac/'' @ DEVICE_AREA cfg @ ''/'' @ DEVICE_NAME_MQTT cfg @ ''/status''"
      "mqttTopicAvail (buildMqttTopics cfg x) = ''hvac/'' @ DEVICE_AREA cfg @ ''/'' @ DEVICE_NAME_MQTT cfg @ ''/availability''"
      for x
    by (simp_all add: buildMqttTopics_def Let_def)
  show "wire (trace (setup_ino cfg hw s)) = wire (trace s)"
    unfolding setup_ino_def Let_def by (simp add: p)
  show "mqttTopicStatus (setup_ino cfg hw s) = ''hvac/'' @ DEVICE_AREA cfg @ ''/'' @ DEVICE_NAME_MQTT cfg @ ''/status''"
    unfolding setup_ino_def Let_def by (simp add: q r)
  show "mqttTopicAvail (setup_ino cfg hw s) = ''hvac/'' @ DEVICE_AREA cfg @ ''/'' @ DEVICE_NAME_MQTT cfg @ ''/availability''"
    unfolding setup_ino_def Let_def by (simp add: q r)
qed

lemma desc_boot: "descriptor_inv (boot cfg hw)"
proof -
  have w: "wire (trace (boot cfg hw)) = []"
    unfolding boot_def setup_wire by (simp add: power_up_def)
  have o: "descriptor_once t False (trace (boot cfg hw))"
      "\<not> descriptor_seen t False (trace (boot cfg hw))" for t
    using w once_wire[of t False "trace (boot cfg hw)"] seen_wire[of t False "trace (boot cfg hw)"]
    by simp_all
  have n: "mqttTopicStatus (boot cfg hw) \<notin> set discovery_topics"
      "mqttTopicAvail (boot cfg hw) \<notin> set discovery_topics"
    unfolding boot_def setup_wire by (simp_all add: discovery_topics_def)
  show ?thesis unfolding descriptor_inv_def using o n by simp
qed

lemma published_offline_poll:
  assumes off: "\<not> session s"
  shows "published (trace (pollRestoreButton cfg hw s)) = published (trace s)"
proof (cases "btn_accepted hw s")
  case False
  show ?thesis unfolding poll_ignored[OF False] by simp
next
  case True
  show ?thesis
  proof (cases "hw_pin hw (tick s) = HIGH")
    case h: True
    show ?thesis unfolding poll_released[OF True h] by simp
  next
    case False
    then have l: "hw_pin hw (tick s) = LOW" by (simp add: HIGH_def LOW_def)
    let ?a = "Serial_println ''button:restore_pressed''
        (publishStatus hw ''button:restore_pressed'' True
           (s\<lparr>tick := Suc (tick s), lastBtnChangeMs := millis s, lastBtnState := LOW\<rparr>))"
    have o: "\<not> session ?a" using off by (simp add: publishStatus_eq)
    have t: "published (trace ?a) = published (trace s)"
      using off by (simp add: publishStatus_eq prim_defs)
    show ?thesis unfolding poll_pressed[OF True l] published_local_off[OF o] by (rule t)
  qed
qed

lemma published_offline_bootRestore:
  assumes off: "\<not> session s"
  shows "published (trace (loop_bootRestore cfg hw s)) = published (trace s)"
proof (cases "bootRestoreScheduled s \<and> bootRestoreAtMs s \<le> millis s")
  case False
  then show ?thesis by (simp add: loop_bootRestore_waits)
next
  case True
  let ?s = "s\<lparr>bootRestoreScheduled := False, session := False, tick := Suc (tick s)\<rparr>"
  have f: "loop_bootRestore cfg hw s = restoreTo45AndOff cfg hw ''boot_powerloss'' 0 ?s"
    using True off by (simp add: loop_bootRestore_fires)
  have o: "\<not> session ?s" by simp
  show ?thesis unfolding f using published_local_off[OF o] by simp
qed

lemma dropped_round:
  assumes wifi: "\<forall>n. hw_wifi hw n" and ack: "\<forall>n. hw_connack hw n"
    and sock: "\<forall>n. hw_sock hw n = (n < tick s + 10)"
    and ns: "\<not> session s" and due: "MQTT_RETRY_MS \<le> millis s - lastMqttAttemptMs s"
    and al: "\<not> (millis s - tAlive s > 10000)"
  shows "session_log (trace (loop cfg hw s)) = session_log (trace s) @ [Connected, Discovered]"
    and "discoveryPublished (loop cfg hw s)"
    and "published (trace (loop cfg hw s)) =
           published (trace s)
           @ [(mqttTopicAvail s, AVAIL_ONLINE, True), (mqttTopicStatus s, ''online'', True)]"
    and "\<not> session (loop cfg hw s)"
proof -
  let ?b = "ensureWiFiNonBlocking cfg hw (loop_alive hw s)"
  let ?c = "loop_ota hw ?b"
  let ?d = "ensureMQTTNonBlocking cfg hw ?c"
  let ?e = "loop_session cfg hw ?d"
  let ?f = "loop_bootRestore cfg hw ?e"
  have a: "loop_alive hw s = s" using al by (simp add: loop_alive_def)
  have b: "clock ?b = clock s" "lastMqttAttemptMs ?b = lastMqttAttemptMs s" "\<not> session ?b"
      "session_log (trace ?b) = session_log (trace s)" "tick ?b = Suc (tick s)"
      "published (trace ?b) = published (trace s)" "topics ?b = topics s"
    unfolding a using ns wifi by (simp_all add: ensureWiFi_eq topics_def)
  have c: "clock ?c = clock s" "lastMqttAttemptMs ?c = lastMqttAttemptMs s" "\<not> session ?c"
      "session_log (trace ?c) = session_log (trace s)" "tick ?c = Suc (Suc (tick s))"
      "published (trace ?c) = published (trace s)" "topics ?c = topics s"
    using b by (simp_all add: loop_ota_def wifi_connected_def setupOTA_def Let_def prim_defs topics_def)
  have md: "mqtt_due hw ?c"
    using c wifi due by (simp add: mqtt_due_def millis_def)
  have ok: "hw_connack hw (Suc (Suc (tick ?c)))" using ack by simp
  have tc: "mqttTopicAvail ?c = mqttTopicAvail s" "mqttTopicStatus ?c = mqttTopicStatus s"
    using c(7) by (simp_all add: topics_def)
  have d: "session_log (trace ?d) = session_log (trace s) @ [Connected]" "\<not> discoveryPublished ?d"
    using ensureMQTT_connects(1,2)[OF md ok, of cfg] c(4) by simp_all
  have d2: "session ?d" "tick ?d = tick s + 9"
      "published (trace ?d) = published (trace s)
           @ [(mqttTopicAvail s, AVAIL_ONLINE, True), (mqttTopicStatus s, ''online'', True)]"
    unfolding ensureMQTT_accepted[OF md ok] using sock c(5,6) tc
    by (simp_all add: publishStatus_eq setAvailability_eq)
  let ?m = "mqtt_loop cfg hw (?d\<lparr>session := True, tick := Suc (tick ?d)\<rparr>)"
  have e: "?e = loop_discovery hw ?m"
    using d2 sock by (simp add: loop_session_eq)
  have me: "?m = ?d\<lparr>session := False, tick := Suc (Suc (tick ?d))\<rparr>"
  proof -
    have "\<not> hw_sock hw (Suc (tick ?d))" using sock d2(2) by simp
    then show ?thesis by (simp add: mqtt_loop_def mqtt_connected_def Let_def)
  qed
  have m: "session_log (trace ?m) = session_log (trace ?d)" "\<not> discoveryPublished ?m"
      "\<not> session ?m" "published (trace ?m) = published (trace ?d)"
    unfolding me using d(2) by simp_all
  note p = pub_published[OF pub_loop_discovery[OF m(2), of hw]]
  have e1: "session_log (trace ?e) = session_log (trace s) @ [Connected, Discovered]"
      "discoveryPublished ?e"
    unfolding e using loop_discovery_publishes(1,2)[OF m(2), of hw] m(1) d(1) by simp_all
  have e2: "\<not> session ?e" "published (trace ?e) = published (trace ?d)"
    unfolding e using p(3,4) m(3,4) by simp_all
  have f: "log_quiet ?e ?f" by (rule log_quiet_loop_bootRestore)
  then have f2: "\<not> session ?f" using e2(1) by (simp add: log_quiet_def)
  have f3: "published (trace ?f) = published (trace ?d)"
    using published_offline_bootRestore[OF e2(1), of cfg hw] e2(2) by simp
  have q: "quiet_step ?f (delay 1 (pollRestoreButton cfg hw ?f))"
    by (rule quiet_trans[OF quiet_poll quiet_prims(1)])
  then have g: "log_quiet ?f (loop cfg hw s)"
    unfolding loop_def Let_def using quiet_parts by blast
  have l: "log_quiet ?e (loop cfg hw s)" by (rule log_quiet_trans[OF f g])
  show "session_log (trace (loop cfg hw s)) = session_log (trace s) @ [Connected, Discovered]"
    using l e1(1) by (simp add: log_quiet_def)
  show "discoveryPublished (loop cfg hw s)"
    using l e1(2) by (simp add: log_quiet_def)
  show "\<not> session (loop cfg hw s)"
    using l e2(1) by (simp add: log_quiet_def)
  have "published (trace (delay 1 (pollRestoreButton cfg hw ?f))) = published (trace ?f)"
    using published_offline_poll[OF f2, of cfg hw] by (simp add: prim_defs)
  then show "published (trace (loop cfg hw s)) =
           published (trace s)
           @ [(mqttTopicAvail s, AVAIL_ONLINE, True), (mqttTopicStatus s, ''online'', True)]"
    unfolding loop_def Let_def using f3 d2(3) by simp
qed

lemma tick_boot: "tick (boot cfg hw) = Suc 0" "tAlive (boot cfg hw) = 0"
proof -
  have g: "tick (emit e x) = tick x" "tick (delay n x) = tick x"
      "tick (Serial_println t x) = tick x"
      "tick (ensureWiFiNonBlocking cfg hw x) = Suc (tick x)"
      "tAlive (emit e x) = tAlive x" "tAlive (delay n x) = tAlive x"
      "tAlive (Serial_println t x) = tAlive x"
      "tAlive (ensureWiFiNonBlocking cfg hw x) = tAlive x"
      "tAlive (buildMqttTopics cfg x) = tAlive x" for e n t x
    by (simp_all add: prim_defs ensureWiFi_eq buildMqttTopics_def Let_def)
  show "tick (boot cfg hw) = Suc 0"
    unfolding boot_def setup_ino_def Let_def by (simp add: g) (simp add: power_up_def)
  show "tAlive (boot cfg hw) = 0"
    unfolding boot_def setup_ino_def Let_def by (simp add: g) (simp add: power_up_def)
qed

text \<open>
  Claim C5, amended. A successful \<^verbatim>\<open>mqtt.connect\<close> leaves the discovery flag false; a call
  of \<^verbatim>\<open>ensureMQTTNonBlocking\<close> that does not connect leaves the flag and the session log
  as they are. The discovery block does nothing when the flag is set; otherwise it makes
  one discovery run and sets the flag, whatever was published. The run tries to publish
  the nine descriptors of the discovery set, then \<open>discovery:published\<close>, the reset reason
  and \<open>ready\<close>, in this order: all of them are published exactly when the client is still
  connected after the run, otherwise only an initial part of them, and none when the
  client was not connected when the run began. The session block of the loop enters the
  discovery block exactly when it finds the client connected, after \<^verbatim>\<open>mqtt.loop()\<close>, so
  whenever the loop finds the client connected the flag is set when the session block is
  left; with link and broker available this is the round in which the connection was
  made. Over any run from the start, every discovery run has a connection between itself
  and the one before, the flag is set exactly when the last entry of the session log is a
  discovery run, and no descriptor of the discovery set is published twice without a
  successful connection in between.
\<close>

theorem discovery_once_per_session:
  "(mqtt_due hw s \<and> hw_connack hw (Suc (Suc (tick s))) \<longrightarrow>
      session_log (trace (ensureMQTTNonBlocking cfg hw s)) = session_log (trace s) @ [Connected]
      \<and> \<not> discoveryPublished (ensureMQTTNonBlocking cfg hw s))
   \<and> (\<not> (mqtt_due hw s \<and> hw_connack hw (Suc (Suc (tick s)))) \<longrightarrow>
        session_log (trace (ensureMQTTNonBlocking cfg hw s)) = session_log (trace s)
        \<and> discoveryPublished (ensureMQTTNonBlocking cfg hw s) = discoveryPublished s)
   \<and> (discoveryPublished s \<longrightarrow> loop_discovery hw s = s)
   \<and> (\<not> discoveryPublished s \<longrightarrow>
        session_log (trace (loop_discovery hw s)) = session_log (trace s) @ [Discovered]
        \<and> discoveryPublished (loop_discovery hw s)
        \<and> (session (loop_discovery hw s) \<longrightarrow>
             session s
             \<and> published (trace (loop_discovery hw s)) = published (trace s) @ discovery_run hw s)
        \<and> (\<not> session (loop_discovery hw s) \<longrightarrow>
             (\<exists>k<length (discovery_run hw s).
                published (trace (loop_discovery hw s)) =
                  published (trace s) @ take k (discovery_run hw s)))
        \<and> (\<not> session s \<longrightarrow>
             published (trace (loop_discovery hw s)) = published (trace s)))
   \<and> discovery_run hw s =
       discovery_set s
       @ map (status_msg s)
           [''discovery:published'',
            ''boot:reset_reason:'' @ resetReasonToString (hw_reset_reason hw), ''ready'']
   \<and> (\<not> discoveryPublished s \<and> session s \<and> (\<forall>n. hw_sock hw n) \<longrightarrow>
        published (trace (loop_discovery hw s)) =
          published (trace s) @ discovery_set s
          @ map (status_msg s)
              [''discovery:published'',
               ''boot:reset_reason:'' @ resetReasonToString (hw_reset_reason hw), ''ready''])
   \<and> map fst (discovery_set s) = discovery_topics
   \<and> distinct discovery_topics
   \<and> (session s \<and> hw_sock hw (tick s) \<longrightarrow> discoveryPublished (loop_session cfg hw s))
   \<and> loop_session cfg hw s =
       (if session s \<and> hw_sock hw (tick s)
        then loop_discovery hw (mqtt_loop cfg hw (s\<lparr>session := True, tick := Suc (tick s)\<rparr>))
        else s\<lparr>session := False, tick := Suc (tick s)\<rparr>)
   \<and> ((\<forall>n. hw_wifi hw n) \<and> (\<forall>n. hw_sock hw n) \<and> (\<forall>n. hw_connack hw n) \<and> \<not> session s
        \<and> MQTT_RETRY_MS \<le> millis s - lastMqttAttemptMs s \<longrightarrow>
        session_log (trace (loop cfg hw s)) = session_log (trace s) @ [Connected, Discovered]
        \<and> discoveryPublished (loop cfg hw s))
   \<and> once_per_session False (session_log (trace (run cfg hw dts (boot cfg hw))))
   \<and> discoveryPublished (run cfg hw dts (boot cfg hw)) =
       (session_log (trace (run cfg hw dts (boot cfg hw))) \<noteq> []
        \<and> last (session_log (trace (run cfg hw dts (boot cfg hw)))) = Discovered)
   \<and> (\<forall>t \<in> set discovery_topics.
        descriptor_once t False (trace (run cfg hw dts (boot cfg hw))))"
proof -
  have 1: "mqtt_due hw s \<and> hw_connack hw (Suc (Suc (tick s))) \<longrightarrow>
      session_log (trace (ensureMQTTNonBlocking cfg hw s)) = session_log (trace s) @ [Connected]
      \<and> \<not> discoveryPublished (ensureMQTTNonBlocking cfg hw s)"
    using ensureMQTT_connects(1,2)[of hw s cfg] by blast
  have 2: "\<not> (mqtt_due hw s \<and> hw_connack hw (Suc (Suc (tick s)))) \<longrightarrow>
        session_log (trace (ensureMQTTNonBlocking cfg hw s)) = session_log (trace s)
        \<and> discoveryPublished (ensureMQTTNonBlocking cfg hw s) = discoveryPublished s"
    using ensureMQTT_quiet[of hw s cfg] by (simp add: quiet_step_def)
  have 3: "discoveryPublished s \<longrightarrow> loop_discovery hw s = s"
    using loop_discovery_skips by blast
  have 4: "\<not> discoveryPublished s \<longrightarrow>
        session_log (trace (loop_discovery hw s)) = session_log (trace s) @ [Discovered]
        \<and> discoveryPublished (loop_discovery hw s)
        \<and> (session (loop_discovery hw s) \<longrightarrow>
             session s
             \<and> published (trace (loop_discovery hw s)) = published (trace s) @ discovery_run hw s)
        \<and> (\<not> session (loop_discovery hw s) \<longrightarrow>
             (\<exists>k<length (discovery_run hw s).
                published (trace (loop_discovery hw s)) =
                  published (trace s) @ take k (discovery_run hw s)))
        \<and> (\<not> session s \<longrightarrow>
             published (trace (loop_discovery hw s)) = published (trace s))"
  proof
    assume f: "\<not> discoveryPublished s"
    note p = pub_published[OF pub_loop_discovery[OF f, of hw]]
    show "session_log (trace (loop_discovery hw s)) = session_log (trace s) @ [Discovered]
        \<and> discoveryPublished (loop_discovery hw s)
        \<and> (session (loop_discovery hw s) \<longrightarrow>
             session s
             \<and> published (trace (loop_discovery hw s)) = published (trace s) @ discovery_run hw s)
        \<and> (\<not> session (loop_discovery hw s) \<longrightarrow>
             (\<exists>k<length (discovery_run hw s).
                published (trace (loop_discovery hw s)) =
                  published (trace s) @ take k (discovery_run hw s)))
        \<and> (\<not> session s \<longrightarrow>
             published (trace (loop_discovery hw s)) = published (trace s))"
      using loop_discovery_publishes(1,2)[OF f, of hw] p by blast
  qed
  have 5: "\<not> discoveryPublished s \<and> session s \<and> (\<forall>n. hw_sock hw n) \<longrightarrow>
        published (trace (loop_discovery hw s)) =
          published (trace s) @ discovery_set s
          @ map (status_msg s)
              [''discovery:published'',
               ''boot:reset_reason:'' @ resetReasonToString (hw_reset_reason hw), ''ready'']"
    using loop_discovery_online(1)[of s hw] by blast
  have 7: "session s \<and> hw_sock hw (tick s) \<longrightarrow> discoveryPublished (loop_session cfg hw s)"
    using loop_session_sets_flag by blast
  have 8: "(\<forall>n. hw_wifi hw n) \<and> (\<forall>n. hw_sock hw n) \<and> (\<forall>n. hw_connack hw n) \<and> \<not> session s
        \<and> MQTT_RETRY_MS \<le> millis s - lastMqttAttemptMs s \<longrightarrow>
        session_log (trace (loop cfg hw s)) = session_log (trace s) @ [Connected, Discovered]
        \<and> discoveryPublished (loop cfg hw s)"
    using same_round_discovery[of hw s cfg] by blast
  have i: "session_inv (run cfg hw dts (boot cfg hw))"
    by (rule inv_run[OF inv_boot])
  then have 9: "once_per_session False (session_log (trace (run cfg hw dts (boot cfg hw))))"
    and 10: "discoveryPublished (run cfg hw dts (boot cfg hw)) =
       (session_log (trace (run cfg hw dts (boot cfg hw))) \<noteq> []
        \<and> last (session_log (trace (run cfg hw dts (boot cfg hw)))) = Discovered)"
    by (simp_all add: session_inv_def)
  have 11: "\<forall>t \<in> set discovery_topics.
        descriptor_once t False (trace (run cfg hw dts (boot cfg hw)))"
    using desc_run[OF desc_boot, of cfg hw dts cfg hw] by (simp add: descriptor_inv_def)
  show ?thesis
    by (intro conjI 1 2 3 4 discovery_run_def 5 discovery_set_topics distinct_discovery_topics
          7 loop_session_eq 8 9 10 11)
qed

text \<open>
  Against claim C5 as first stated (the flag becomes true in a later round than the
  connection, and only after the full discovery set has been published). Five seconds
  after a start with link and broker available there has been no session yet; the next
  round of the loop connects, makes the discovery run and sets the flag, all in that one
  round. And when the socket closes right after the loop's session check, that round
  still sets the flag, while all that has been published is the two \<open>online\<close> messages
  of the connection: no descriptor, no reset reason, no \<open>ready\<close>.
\<close>

theorem discovery_same_round_and_unpublished:
  "session_log (trace (idle 5000 (boot config_h hw_online))) = []
   \<and> \<not> session (idle 5000 (boot config_h hw_online))
   \<and> \<not> discoveryPublished (idle 5000 (boot config_h hw_online))
   \<and> session_log (trace (loop config_h hw_online (idle 5000 (boot config_h hw_online))))
       = [Connected, Discovered]
   \<and> discoveryPublished (loop config_h hw_online (idle 5000 (boot config_h hw_online)))
   \<and> published (trace (idle 5000 (boot config_h hw_drop))) = []
   \<and> session_log (trace (loop config_h hw_drop (idle 5000 (boot config_h hw_drop))))
       = [Connected, Discovered]
   \<and> discoveryPublished (loop config_h hw_drop (idle 5000 (boot config_h hw_drop)))
   \<and> published (trace (loop config_h hw_drop (idle 5000 (boot config_h hw_drop)))) =
       [(''hvac/bathroom/geyser/availability'', ''online'', True),
        (''hvac/bathroom/geyser/status'', ''online'', True)]"
proof -
  let ?s = "idle 5000 (boot config_h hw_online)"
  let ?d = "idle 5000 (boot config_h hw_drop)"
  have h: "\<forall>n. hw_wifi hw_online n" "\<forall>n. hw_sock hw_online n" "\<forall>n. hw_connack hw_online n"
    by (simp_all add: hw_online_def)
  have s: "session_log (trace ?s) = []" "\<not> session ?s" "\<not> discoveryPublished ?s"
      "MQTT_RETRY_MS \<le> millis ?s - lastMqttAttemptMs ?s"
    using boot_facts(4)[of config_h hw_online]
    by (simp_all add: idle_def boot_facts lastMqttAttemptMs_boot millis_def MQTT_RETRY_MS_def)
  have g: "\<forall>n. hw_wifi hw_drop n" "\<forall>n. hw_connack hw_drop n"
      "\<forall>n. hw_sock hw_drop n = (n < tick ?d + 10)"
    by (simp_all add: hw_drop_def hw_online_def idle_def tick_boot)
  have d: "session_log (trace ?d) = []" "\<not> session ?d"
      "MQTT_RETRY_MS \<le> millis ?d - lastMqttAttemptMs ?d"
      "\<not> (millis ?d - tAlive ?d > 10000)" "published (trace ?d) = []"
      "mqttTopicAvail ?d = ''hvac/bathroom/geyser/availability''"
      "mqttTopicStatus ?d = ''hvac/bathroom/geyser/status''"
    using boot_facts(4)[of config_h hw_drop] published_setup[of config_h hw_drop power_up]
    by (simp_all add: idle_def boot_facts lastMqttAttemptMs_boot tick_boot millis_def
          MQTT_RETRY_MS_def)
       (simp_all add: boot_def setup_wire power_up_def config_h_def)
  note r = dropped_round[OF g(1,2,3) d(2,3,4), of config_h]
  show ?thesis
    using s(1,2,3) same_round_discovery[OF h s(2) s(4), of config_h] d(1,5,6,7) r
    by (simp add: AVAIL_ONLINE_def)
qed

theorem discovery_once_per_session_witness:
  "mqtt_due hw_online (power_up\<lparr>clock := 5000\<rparr>)
   \<and> hw_connack hw_online (Suc (Suc (tick (power_up\<lparr>clock := 5000\<rparr>))))
   \<and> \<not> discoveryPublished (ensureMQTTNonBlocking config_h hw_online (power_up\<lparr>clock := 5000\<rparr>))
   \<and> \<not> (mqtt_due hw_online power_up \<and> hw_connack hw_online (Suc (Suc (tick power_up))))
   \<and> session_log (trace (ensureMQTTNonBlocking config_h hw_online power_up)) = session_log (trace power_up)
   \<and> discoveryPublished (power_up\<lparr>discoveryPublished := True\<rparr>)
   \<and> loop_discovery hw_online (power_up\<lparr>discoveryPublished := True\<rparr>)
       = power_up\<lparr>discoveryPublished := True\<rparr>
   \<and> \<not> discoveryPublished (power_up\<lparr>session := True\<rparr>) \<and> session (power_up\<lparr>session := True\<rparr>)
   \<and> (\<forall>n. hw_sock hw_online n)
   \<and> hw_sock hw_online (tick (power_up\<lparr>session := True\<rparr>))
   \<and> discoveryPublished (loop_discovery hw_online (power_up\<lparr>session := True\<rparr>))
   \<and> map fst (published (trace (loop_discovery hw_online (power_up\<lparr>session := True\<rparr>))))
       = discovery_topics @ [[], [], []]
   \<and> session (loop_discovery hw_online (power_up\<lparr>session := True\<rparr>))
   \<and> published (trace (loop_discovery hw_online (power_up\<lparr>session := True\<rparr>)))
       = discovery_run hw_online (power_up\<lparr>session := True\<rparr>)
   \<and> \<not> discoveryPublished power_up \<and> \<not> session power_up
   \<and> \<not> session (loop_discovery hw_offline power_up)
   \<and> discoveryPublished (loop_discovery hw_offline power_up)
   \<and> published (trace (loop_discovery hw_offline power_up)) = []
   \<and> discoveryPublished (loop_session config_h hw_online (power_up\<lparr>session := True\<rparr>))
   \<and> (\<forall>n. hw_wifi hw_online n) \<and> (\<forall>n. hw_connack hw_online n)
   \<and> \<not> session (power_up\<lparr>clock := 5000\<rparr>)
   \<and> MQTT_RETRY_MS \<le> millis (power_up\<lparr>clock := 5000\<rparr>) - lastMqttAttemptMs (power_up\<lparr>clock := 5000\<rparr>)
   \<and> discoveryPublished (loop config_h hw_online (power_up\<lparr>clock := 5000\<rparr>))
   \<and> ''homeassistant/sensor/olimpia_ir_status_01/config'' \<in> set discovery_topics
   \<and> descriptor_once ''homeassistant/sensor/olimpia_ir_status_01/config'' False
        (trace (run config_h hw_online [5000, 1] (boot config_h hw_online)))"
proof -
  let ?a = "power_up\<lparr>clock := 5000\<rparr>"
  let ?b = "power_up\<lparr>discoveryPublished := True\<rparr>"
  let ?c = "power_up\<lparr>session := True\<rparr>"
  note T = discovery_once_per_session[of hw_online _ config_h "[5000, 1]"]
  note U = discovery_once_per_session[of hw_offline power_up config_h "[]"]
  have h: "\<forall>n. hw_wifi hw_online n" "\<forall>n. hw_sock hw_online n" "\<forall>n. hw_connack hw_online n"
    by (simp_all add: hw_online_def)
  have a: "mqtt_due hw_online ?a" "hw_connack hw_online (Suc (Suc (tick ?a)))" "\<not> session ?a"
      "MQTT_RETRY_MS \<le> millis ?a - lastMqttAttemptMs ?a"
    by (simp_all add: mqtt_due_def hw_online_def power_up_def millis_def MQTT_RETRY_MS_def)
  have p: "\<not> (mqtt_due hw_online power_up \<and> hw_connack hw_online (Suc (Suc (tick power_up))))"
    by (simp add: mqtt_due_def power_up_def millis_def MQTT_RETRY_MS_def)
  have b: "discoveryPublished ?b" by simp
  have c: "\<not> discoveryPublished ?c" "session ?c" "hw_sock hw_online (tick ?c)"
      "published (trace ?c) = []" "mqttTopicStatus ?c = []"
    using h(2) by (simp_all add: power_up_def)
  have e: "\<not> discoveryPublished power_up" "\<not> session power_up" "published (trace power_up) = []"
    by (simp_all add: power_up_def)
  have 1: "\<not> discoveryPublished (ensureMQTTNonBlocking config_h hw_online ?a)"
    using T[of ?a] a by blast
  have 2: "session_log (trace (ensureMQTTNonBlocking config_h hw_online power_up)) = session_log (trace power_up)"
    using T[of power_up] p by blast
  have 3: "loop_discovery hw_online ?b = ?b"
    using T[of ?b] b by blast
  have 4: "discoveryPublished (loop_discovery hw_online ?c)"
    using T[of ?c] c(1) by blast
  have "published (trace (loop_discovery hw_online ?c)) =
          published (trace ?c) @ discovery_set ?c
          @ map (status_msg ?c)
              [''discovery:published'',
               ''boot:reset_reason:'' @ resetReasonToString (hw_reset_reason hw_online), ''ready'']"
    using T[of ?c] c(1,2) h(2) by blast
  moreover have "map fst (discovery_set ?c) = discovery_topics"
    using T[of ?c] by blast
  ultimately have 5: "map fst (published (trace (loop_discovery hw_online ?c)))
       = discovery_topics @ [[], [], []]"
    by (simp add: status_msg_def power_up_def)
  have sc: "session (loop_discovery hw_online ?c)"
    by (rule loop_discovery_online(2)[OF c(1,2) h(2)])
  have "published (trace (loop_discovery hw_online ?c)) =
          published (trace ?c) @ discovery_run hw_online ?c"
    using T[of ?c] c(1) sc by blast
  then have r5a: "published (trace (loop_discovery hw_online ?c)) = discovery_run hw_online ?c"
    using c(4) by simp
  have so: "\<not> session (loop_discovery hw_offline power_up)"
    using loop_discovery_publishes(4)[OF e(1), of hw_offline] e(2) by blast
  have r5b: "discoveryPublished (loop_discovery hw_offline power_up)"
    using U e(1) by blast
  have "published (trace (loop_discovery hw_offline power_up)) = published (trace power_up)"
    using U e(1,2) by blast
  then have r5c: "published (trace (loop_discovery hw_offline power_up)) = []"
    using e(3) by simp
  have 6: "discoveryPublished (loop_session config_h hw_online ?c)"
    using T[of ?c] c(2,3) by blast
  have 7: "discoveryPublished (loop config_h hw_online ?a)"
    using T[of ?a] h a(3,4) by blast
  have m: "''homeassistant/sensor/olimpia_ir_status_01/config'' \<in> set discovery_topics"
    by (simp add: discovery_topics_def)
  have "\<forall>t \<in> set discovery_topics.
          descriptor_once t False (trace (run config_h hw_online [5000, 1] (boot config_h hw_online)))"
    using T[of power_up] by blast
  then have 8: "descriptor_once ''homeassistant/sensor/olimpia_ir_status_01/config'' False
        (trace (run config_h hw_online [5000, 1] (boot config_h hw_online)))"
    using m by (rule bspec)
  show ?thesis
    by (intro conjI a(1,2) 1 p 2 b 3 c(1,2) h(2) c(3) 4 5 sc r5a e(1,2) so r5b r5c 6 h(1,3) a(3,4) 7 m 8)
qed

end
